theory Spec2Isabelle
  imports Main "HOL-Library.Monad_Syntax"
begin

section \<open>Constants (constants.js)\<close>

definition GRID_COLS :: int where "GRID_COLS = 20"
definition GRID_ROWS :: int where "GRID_ROWS = 15"

text \<open>The entries of \<open>GAMEPLAY\<close> that the core logic reads.\<close>

definition MOVE_ANIMATION_MS :: int where "MOVE_ANIMATION_MS = 120"
definition BLOCKED_FEEDBACK_MS :: int where "BLOCKED_FEEDBACK_MS = 260"
definition DEADLOCK_HINT_MS :: int where "DEADLOCK_HINT_MS = 2500"
definition SHAKE_DURATION_MS :: int where "SHAKE_DURATION_MS = 180"
definition HISTORY_LIMIT :: nat where "HISTORY_LIMIT = 300"
definition STAR_POWER_MOVES :: int where "STAR_POWER_MOVES = 8"

datatype tile =
  EMPTY | WALL | EXIT | OBSTACLE | SPAWN | ITEM | BIG_ITEM | STAR_ITEM | PORTAL_A | PORTAL_B

datatype game_state =
  TITLE | LEVEL_SELECT | PLAYING | PAUSED | LEVEL_COMPLETE | GAME_COMPLETE

text \<open>
  A coordinate object \<open>{x, y}\<close> is the pair \<open>(x, y)\<close>; a tile grid is a list of rows,
  read as \<open>tiles[y][x]\<close>.
\<close>

type_synonym point = "int \<times> int"
type_synonym grid = "tile list list"

text \<open>
  A coordinate object read from a computation that can give \<open>NaN\<close>: \<open>Cell p\<close> has
  the whole-number coordinates \<open>p\<close>, \<open>NaN_cell\<close> is \<open>{x: NaN, y: NaN}\<close>.
\<close>

datatype cell = Cell point | NaN_cell

text \<open>
  The property names that a plain object inherits from \<open>Object.prototype\<close>. Each of
  them reads as a function or an object: a truthy value without the fields \<open>x\<close> and
  \<open>y\<close>.
\<close>

definition Object_prototype_names :: "string list" where
  "Object_prototype_names =
     [''constructor'', ''hasOwnProperty'', ''isPrototypeOf'', ''propertyIsEnumerable'',
      ''toLocaleString'', ''toString'', ''valueOf'', ''__proto__'',
      ''__defineGetter__'', ''__defineSetter__'', ''__lookupGetter__'', ''__lookupSetter__'']"

text \<open>
  \<open>DIRECTIONS[name]\<close>, a property read on the frozen table: \<open>Vec d\<close> for one of its
  four own properties, \<open>Inherited\<close> for a name found on \<open>Object.prototype\<close>, and
  \<open>None\<close> for \<open>undefined\<close>.
\<close>

datatype table_entry = Vec point | Inherited

definition DIRECTIONS :: "string \<Rightarrow> table_entry option" where
  "DIRECTIONS name =
     (if name = ''up'' then Some (Vec (0, -1))
      else if name = ''down'' then Some (Vec (0, 1))
      else if name = ''left'' then Some (Vec (-1, 0))
      else if name = ''right'' then Some (Vec (1, 0))
      else if name \<in> set Object_prototype_names then Some Inherited
      else None)"

fun STATE_TRANSITIONS :: "game_state \<Rightarrow> game_state list" where
  "STATE_TRANSITIONS TITLE = [LEVEL_SELECT, PLAYING]"
| "STATE_TRANSITIONS LEVEL_SELECT = [TITLE, PLAYING]"
| "STATE_TRANSITIONS PLAYING = [PAUSED, LEVEL_COMPLETE, GAME_COMPLETE, TITLE]"
| "STATE_TRANSITIONS PAUSED = [PLAYING, TITLE, LEVEL_SELECT]"
| "STATE_TRANSITIONS LEVEL_COMPLETE = [PLAYING, TITLE, LEVEL_SELECT]"
| "STATE_TRANSITIONS GAME_COMPLETE = [PLAYING, TITLE, LEVEL_SELECT]"

definition isInside :: "int \<Rightarrow> int \<Rightarrow> bool" where
  "isInside x y \<longleftrightarrow> x \<ge> 0 \<and> y \<ge> 0 \<and> x < GRID_COLS \<and> y < GRID_ROWS"

text \<open>\<open>tiles[y][x]\<close> for a coordinate that the caller has checked to be on the board.\<close>

definition tile_at :: "grid \<Rightarrow> int \<Rightarrow> int \<Rightarrow> tile" where
  "tile_at ts x y = ts ! nat y ! nat x"

text \<open>\<open>tiles[y][x] = t\<close>, likewise for a checked coordinate.\<close>

definition set_tile :: "int \<Rightarrow> int \<Rightarrow> tile \<Rightarrow> grid \<Rightarrow> grid" where
  "set_tile x y t ts = ts[nat y := (ts ! nat y)[nat x := t]]"

text \<open>The shape every parsed level has: \<open>GRID_ROWS\<close> rows of \<open>GRID_COLS\<close> tiles.\<close>

definition wf_grid :: "grid \<Rightarrow> bool" where
  "wf_grid ts \<longleftrightarrow> int (length ts) = GRID_ROWS \<and> list_all (\<lambda>row. int (length row) = GRID_COLS) ts"

section \<open>Snake (snake.js)\<close>

record snake =
  segments :: "point list"
  direction :: string

text \<open>
  Functions that can throw a \<open>TypeError\<close> (a property read on \<open>undefined\<close> or
  \<open>null\<close>) return an option: \<open>None\<close> is the uncaught exception.
\<close>

definition getHead :: "snake \<Rightarrow> point option" where
  "getHead s = (case segments s of [] \<Rightarrow> None | h # _ \<Rightarrow> Some h)"

text \<open>
  \<open>Snake.move\<close>. For an inherited name \<open>direction.x\<close> is \<open>undefined\<close> and the new
  head is \<open>{x: NaN, y: NaN}\<close>. Segment lists here hold whole-number cells, so that
  outcome is the value \<open>After_NaN rest name\<close>: the segments are then the \<open>NaN\<close> cell
  followed by \<open>rest\<close>, and the facing is \<open>name\<close>.
\<close>

datatype snake_after = After snake | After_NaN "point list" string

definition snake_move :: "string \<Rightarrow> snake \<Rightarrow> snake_after option" where
  "snake_move directionName s =
     (case DIRECTIONS directionName of
        None \<Rightarrow> Some (After s)
      | Some e \<Rightarrow>
          (case getHead s of
             None \<Rightarrow> None
           | Some head \<Rightarrow>
               (case e of
                  Vec d \<Rightarrow>
                    Some (After (s\<lparr>segments := butlast ((fst head + fst d, snd head + snd d)
                                                          # segments s),
                                      direction := directionName\<rparr>))
                | Inherited \<Rightarrow> Some (After_NaN (butlast (segments s)) directionName))))"

definition growByTailPosition :: "point option \<Rightarrow> snake \<Rightarrow> snake option" where
  "growByTailPosition tailPosition s =
     (case tailPosition of
        Some p \<Rightarrow> Some (s\<lparr>segments := segments s @ [p]\<rparr>)
      | None \<Rightarrow>
          (case segments s of
             [] \<Rightarrow> None
           | _ \<Rightarrow> Some (s\<lparr>segments := segments s @ [last (segments s)]\<rparr>)))"

definition isWalkable :: "grid \<Rightarrow> int \<Rightarrow> int \<Rightarrow> bool" where
  "isWalkable ts x y =
     (if x < 0 \<or> y < 0 \<or> x \<ge> GRID_COLS \<or> y \<ge> GRID_ROWS then False
      else tile_at ts x y \<noteq> WALL \<and> tile_at ts x y \<noteq> OBSTACLE)"

definition baseOrder :: "string list" where
  "baseOrder = [''right'', ''down'', ''left'', ''up'']"

text \<open>
  The neighbour of \<open>p\<close> in the direction \<open>name\<close>; the search below takes its names
  from \<open>baseOrder\<close> only.
\<close>

definition step_to :: "point \<Rightarrow> string \<Rightarrow> point" where
  "step_to p name = (case DIRECTIONS name of
       Some (Vec d) \<Rightarrow> (fst p + fst d, snd p + snd d) | _ \<Rightarrow> p)"

definition countOpenNeighbors :: "grid \<Rightarrow> point list \<Rightarrow> point \<Rightarrow> nat" where
  "countOpenNeighbors ts visited p =
     length (filter (\<lambda>name. isWalkable ts (fst (step_to p name)) (snd (step_to p name))
                              \<and> step_to p name \<notin> set visited) baseOrder)"

text \<open>
  \<open>options.sort(b.score - a.score)\<close>: a stable sort by descending score, written as
  insertion from the right, which keeps equal scores in their first order.
\<close>

fun insert_by_score :: "string \<times> nat \<Rightarrow> (string \<times> nat) list \<Rightarrow> (string \<times> nat) list" where
  "insert_by_score a [] = [a]"
| "insert_by_score a (b # bs) =
     (if snd b > snd a then b # insert_by_score a bs else a # b # bs)"

definition sort_options :: "(string \<times> nat) list \<Rightarrow> (string \<times> nat) list" where
  "sort_options opts = foldr insert_by_score opts []"

definition dfs_options :: "grid \<Rightarrow> point list \<Rightarrow> point \<Rightarrow> (string \<times> nat) list" where
  "dfs_options ts visited p =
     sort_options
       (map (\<lambda>name. (name, countOpenNeighbors ts visited (step_to p name)))
          (filter (\<lambda>name. \<not> (step_to p name \<in> set visited
                               \<or> \<not> isWalkable ts (fst (step_to p name)) (snd (step_to p name))))
             baseOrder))"

text \<open>
  The recursive \<open>dfs\<close> of \<open>buildInitialSegments\<close> with its loop over the sorted
  options. \<open>path\<close> and \<open>visited\<close> are the closure's mutable variables, passed
  explicitly; a failed branch hands them back unchanged, as the \<open>pop\<close> and
  \<open>delete\<close> do. The result \<open>Some (Some path)\<close> is \<open>true\<close> with the final path,
  \<open>Some None\<close> is \<open>false\<close>. The first argument bounds the recursion depth: every
  call adds an unvisited board cell, so the depth never exceeds the number of cells, and
  the outer \<open>None\<close> (bound reached) stands for a call stack the source never builds.
\<close>

fun dfs :: "nat \<Rightarrow> grid \<Rightarrow> int \<Rightarrow> point list \<Rightarrow> point list \<Rightarrow> point
              \<Rightarrow> point list option option"
  and dfs_loop :: "nat \<Rightarrow> grid \<Rightarrow> int \<Rightarrow> point list \<Rightarrow> point list \<Rightarrow> point
              \<Rightarrow> (string \<times> nat) list \<Rightarrow> point list option option" where
  "dfs 0 ts len path visited p = None"
| "dfs (Suc fuel) ts len path visited p =
     (if int (length path) \<ge> len then Some (Some path)
      else dfs_loop fuel ts len path visited p (dfs_options ts visited p))"
| "dfs_loop fuel ts len path visited p [] = Some None"
| "dfs_loop fuel ts len path visited p (opt # opts) =
     (let next = step_to p (fst opt) in
      case dfs fuel ts len (path @ [next]) (next # visited) next of
        None \<Rightarrow> None
      | Some (Some found) \<Rightarrow> Some (Some found)
      | Some None \<Rightarrow> dfs_loop fuel ts len path visited p opts)"

text \<open>
  The padding loop: while the path is shorter than \<open>length\<close>, push a copy of its last
  cell.
\<close>

definition pad_path :: "int \<Rightarrow> point list \<Rightarrow> point list" where
  "pad_path len path = path @ replicate (nat (len - int (length path))) (last path)"

text \<open>
  When the search fails, every push has been undone and the path is \<open>[spawn]\<close> again.
\<close>

definition buildInitialSegments :: "point \<Rightarrow> int \<Rightarrow> grid \<Rightarrow> point list option" where
  "buildInitialSegments spawn len ts =
     (case dfs (nat (GRID_COLS * GRID_ROWS) + 1) ts len [spawn] [spawn] spawn of
        None \<Rightarrow> None
      | Some (Some path) \<Rightarrow> Some (pad_path len path)
      | Some None \<Rightarrow> Some (pad_path len [spawn]))"

definition new_Snake :: "point \<Rightarrow> int \<Rightarrow> grid \<Rightarrow> snake option" where
  "new_Snake spawn len ts =
     map_option (\<lambda>segs. \<lparr>segments = segs, direction = ''right''\<rparr>)
       (buildInitialSegments spawn len ts)"

section \<open>Game core (game.js)\<close>

text \<open>
  A parsed level, with the fields the core logic reads. Titles, themes, character
  descriptors and the display metrics are left out.
\<close>

record level =
  level_id :: nat
  snakeLength :: int
  spawn :: point
  tiles :: grid

text \<open>One history entry, as \<open>tryMove\<close> builds it.\<close>

record history_delta =
  moveCountBefore :: nat
  previousDirection :: string
  tail :: point
  inputAtMs :: int
  delta_direction :: string
  growth :: nat
  consumedItem :: "(point \<times> tile) option"
  totalItemsBefore :: nat
  levelItemsBefore :: nat
  starMovesBefore :: int
  portalJump :: "(point \<times> point) option"

record move_animation =
  fromSegments :: "point list"
  toSegments :: "point list"
  startAt :: int
  duration :: int

record blocked_feedback =
  fb_tile :: cell
  fb_reason :: string
  fb_startedAt :: int
  fb_until :: int
  fb_shakeUntil :: int

text \<open>The notifications of the event queue, each with the payload fields the core sets.\<close>

datatype event =
    Ev_state game_state
  | Ev_move string nat int
  | Ev_blocked string cell
  | Ev_item_collected string nat point nat nat nat
  | Ev_power_start int
  | Ev_power_end
  | Ev_portal_used point point
  | Ev_level_clear nat nat nat nat
  | Ev_game_complete nat nat
  | Ev_deadlock
  | Ev_undo nat
  | Ev_restart nat

text \<open>
  The fields of \<open>Game\<close> that the move and undo logic reads or writes. Left out: key
  bindings, settings other than \<open>reduceMotion\<close>, persistence (\<open>saveProgressData\<close>,
  \<open>bestMoves\<close>), the replay log and archive, the input latency, and the write-only
  \<open>historyCheckpoints\<close>. \<open>portalLinks\<close> is the object keyed by \<open>pointKey\<close>, as an
  association list in insertion order.
\<close>

record game =
  levels :: "level list"
  state :: game_state
  levelIndex :: int
  unlockedLevelIndex :: int
  currentLevel :: "level option"
  snake :: "snake option"
  moveCount :: nat
  totalMoveCount :: nat
  history :: "history_delta list"
  discardedHistoryCount :: nat
  animationTimeMs :: int
  moveAnimation :: "move_animation option"
  feedback :: "blocked_feedback option"
  progressClears :: nat
  eventQueue :: "event list"
  deadlockHintUntil :: int
  levelCollectedItems :: nat
  levelTotalItems :: nat
  totalItemsCollected :: nat
  starMovesRemaining :: int
  portalLinks :: "(point \<times> point) list"
  reduceMotion :: bool

definition emit :: "event \<Rightarrow> game \<Rightarrow> game" where
  "emit e g = g\<lparr>eventQueue := eventQueue g @ [e]\<rparr>"

definition isTransitionAllowed :: "game_state \<Rightarrow> game \<Rightarrow> bool" where
  "isTransitionAllowed next g \<longleftrightarrow> next \<in> set (STATE_TRANSITIONS (state g)) \<or> next = state g"

definition setState :: "game_state \<Rightarrow> game \<Rightarrow> bool \<times> game" where
  "setState next g =
     (if \<not> isTransitionAllowed next g then (False, g) else (True, g\<lparr>state := next\<rparr>))"

text \<open>All cells of the board in scan order: rows from the top, columns from the left.\<close>

definition scan_cells :: "point list" where
  "scan_cells = concat (map (\<lambda>y. map (\<lambda>x. (int x, int y)) [0..<nat GRID_COLS]) [0..<nat GRID_ROWS])"

text \<open>
  The scan keeps the first \<open>PORTAL_A\<close> and the first \<open>PORTAL_B\<close> cell it meets.
\<close>

definition first_tile :: "grid \<Rightarrow> tile \<Rightarrow> point option" where
  "first_tile ts t = find (\<lambda>p. tile_at ts (fst p) (snd p) = t) scan_cells"

definition buildPortalLinks :: "level option \<Rightarrow> (point \<times> point) list" where
  "buildPortalLinks lv =
     (case lv of
        None \<Rightarrow> []
      | Some l \<Rightarrow>
          (case (first_tile (tiles l) PORTAL_A, first_tile (tiles l) PORTAL_B) of
             (Some firstA, Some firstB) \<Rightarrow> [(firstA, firstB), (firstB, firstA)]
           | _ \<Rightarrow> []))"

text \<open>
  \<open>links[key] = value\<close> twice on a fresh object; a read finds the last write for a key.
\<close>

definition getPortalDestination :: "game \<Rightarrow> point \<Rightarrow> point option" where
  "getPortalDestination g p = map_of (rev (portalLinks g)) p"

definition isStarActive :: "game \<Rightarrow> bool" where
  "isStarActive g \<longleftrightarrow> starMovesRemaining g > 0"

definition canEnterTileType :: "game \<Rightarrow> tile \<Rightarrow> bool" where
  "canEnterTileType g tileType =
     (if tileType = WALL then False
      else if tileType = OBSTACLE \<and> \<not> isStarActive g then False
      else True)"

definition countItemsInCurrentLevel :: "level option \<Rightarrow> nat" where
  "countItemsInCurrentLevel lv =
     (case lv of
        None \<Rightarrow> 0
      | Some l \<Rightarrow>
          length (filter (\<lambda>p. tile_at (tiles l) (fst p) (snd p) = ITEM
                                \<or> tile_at (tiles l) (fst p) (snd p) = BIG_ITEM) scan_cells))"

definition pushHistoryDelta :: "history_delta \<Rightarrow> game \<Rightarrow> game" where
  "pushHistoryDelta delta g =
     (let g1 = g\<lparr>history := history g @ [delta]\<rparr>
      in if length (history g1) > HISTORY_LIMIT
         then g1\<lparr>discardedHistoryCount := discardedHistoryCount g1 + 1,
                 history := tl (history g1)\<rparr>
         else g1)"

definition getTile :: "game \<Rightarrow> int \<Rightarrow> int \<Rightarrow> tile" where
  "getTile g x y =
     (case currentLevel g of
        None \<Rightarrow> WALL
      | Some l \<Rightarrow> if \<not> isInside x y then WALL else tile_at (tiles l) x y)"

definition canMoveTo :: "game \<Rightarrow> int \<Rightarrow> int \<Rightarrow> bool" where
  "canMoveTo g x y =
     (case currentLevel g of
        None \<Rightarrow> False
      | Some l \<Rightarrow> if \<not> isInside x y then False else canEnterTileType g (tile_at (tiles l) x y))"

text \<open>
  \<open>getMoveCandidate\<close>: \<open>Some None\<close> is the \<open>null\<close> returned for a name that reads
  as \<open>undefined\<close>; the outer \<open>None\<close> is the \<open>TypeError\<close> of reading the head of an
  empty or absent snake. For an inherited name \<open>head.x + direction.x\<close> is \<open>NaN\<close>.
\<close>

definition getMoveCandidate :: "game \<Rightarrow> string \<Rightarrow> cell option option" where
  "getMoveCandidate g directionName =
     (case DIRECTIONS directionName of
        None \<Rightarrow> Some None
      | Some e \<Rightarrow>
          (case snake g of
             None \<Rightarrow> None
           | Some s \<Rightarrow>
               (case getHead s of
                  None \<Rightarrow> None
                | Some head \<Rightarrow>
                    Some (Some (case e of
                                  Vec d \<Rightarrow> Cell (fst head + fst d, snd head + snd d)
                                | Inherited \<Rightarrow> NaN_cell)))))"

text \<open>\<open>Object.keys(DIRECTIONS)\<close>, in the table's own order.\<close>

definition directionNames :: "string list" where
  "directionNames = [''up'', ''down'', ''left'', ''right'']"

definition hasAnyValidMove :: "game \<Rightarrow> bool option" where
  "hasAnyValidMove g =
     (if list_ex (\<lambda>n. getMoveCandidate g n = None) directionNames then None
      else Some (list_ex (\<lambda>n. case getMoveCandidate g n of
                                 Some (Some (Cell next)) \<Rightarrow> canMoveTo g (fst next) (snd next)
                               | _ \<Rightarrow> False) directionNames))"

definition setBlockedFeedback :: "cell \<Rightarrow> string \<Rightarrow> game \<Rightarrow> game" where
  "setBlockedFeedback candidate reason g =
     emit (Ev_blocked reason candidate)
       (g\<lparr>feedback := Some \<lparr>fb_tile = candidate, fb_reason = reason,
                             fb_startedAt = animationTimeMs g,
                             fb_until = animationTimeMs g + BLOCKED_FEEDBACK_MS,
                             fb_shakeUntil = animationTimeMs g + SHAKE_DURATION_MS\<rparr>\<rparr>)"

definition startMoveAnimation :: "point list \<Rightarrow> point list \<Rightarrow> game \<Rightarrow> game" where
  "startMoveAnimation fromSegs toSegs g =
     g\<lparr>moveAnimation := Some \<lparr>fromSegments = fromSegs, toSegments = toSegs,
                               startAt = animationTimeMs g,
                               duration = (if reduceMotion g then 0 else MOVE_ANIMATION_MS)\<rparr>\<rparr>"

text \<open>
  \<open>tryMove\<close> pushes the \<open>delta\<close> object onto the history and the later handlers
  write into the same object. Since \<open>HISTORY_LIMIT\<close> is positive, that object is the
  last history entry while the move is resolved; a write to \<open>delta\<close> is a write to the
  last entry.
\<close>

definition update_delta :: "(history_delta \<Rightarrow> history_delta) \<Rightarrow> game \<Rightarrow> game" where
  "update_delta f g =
     g\<lparr>history := (case history g of [] \<Rightarrow> [] | _ \<Rightarrow> butlast (history g) @ [f (last (history g))])\<rparr>"

text \<open>\<open>this.currentLevel.tiles[p.y][p.x] = t\<close>.\<close>

definition write_tile :: "point \<Rightarrow> tile \<Rightarrow> game \<Rightarrow> game option" where
  "write_tile p t g =
     (case currentLevel g of
        None \<Rightarrow> None
      | Some l \<Rightarrow> Some (g\<lparr>currentLevel := Some (l\<lparr>tiles := set_tile (fst p) (snd p) t (tiles l)\<rparr>)\<rparr>))"

text \<open>\<open>this.snake.growByTailPosition(tail)\<close>.\<close>

definition grow_snake :: "point \<Rightarrow> game \<Rightarrow> game option" where
  "grow_snake tailPos g =
     (case snake g of
        None \<Rightarrow> None
      | Some s \<Rightarrow> map_option (\<lambda>s'. g\<lparr>snake := Some s'\<rparr>) (growByTailPosition (Some tailPos) s))"

text \<open>The \<open>item_collected\<close> notification; it reads \<open>this.snake.segments.length\<close>.\<close>

definition emit_item_collected :: "string \<Rightarrow> nat \<Rightarrow> point \<Rightarrow> game \<Rightarrow> game option" where
  "emit_item_collected kind grown candidate g =
     (case snake g of
        None \<Rightarrow> None
      | Some s \<Rightarrow>
          Some (emit (Ev_item_collected kind grown candidate (length (segments s))
                        (levelCollectedItems g) (levelTotalItems g)) g))"

text \<open>
  \<open>handleItemCollection\<close> returns its \<open>activatedStar\<close> flag with the updated game.
\<close>

definition handleItemCollection :: "point \<Rightarrow> tile \<Rightarrow> point \<Rightarrow> game \<Rightarrow> (bool \<times> game) option" where
  "handleItemCollection candidate candidateTile tailPos g =
     (if candidateTile = ITEM then do {
        g1 \<leftarrow> write_tile candidate EMPTY g;
        g2 \<leftarrow> grow_snake tailPos g1;
        let g3 = update_delta (\<lambda>d. d\<lparr>consumedItem := Some (candidate, candidateTile)\<rparr>) g2;
        let g4 = g3\<lparr>levelCollectedItems := levelCollectedItems g3 + 1\<rparr>;
        let g5 = g4\<lparr>totalItemsCollected := totalItemsCollected g4 + 1\<rparr>;
        let g6 = update_delta (\<lambda>d. d\<lparr>growth := 1\<rparr>) g5;
        g7 \<leftarrow> emit_item_collected ''jelly'' 1 candidate g6;
        Some (False, g7)
      } else if candidateTile = BIG_ITEM then do {
        g1 \<leftarrow> write_tile candidate EMPTY g;
        g2 \<leftarrow> grow_snake tailPos g1;
        g2' \<leftarrow> grow_snake tailPos g2;
        let g3 = update_delta (\<lambda>d. d\<lparr>consumedItem := Some (candidate, candidateTile)\<rparr>) g2';
        let g4 = g3\<lparr>levelCollectedItems := levelCollectedItems g3 + 1\<rparr>;
        let g5 = g4\<lparr>totalItemsCollected := totalItemsCollected g4 + 1\<rparr>;
        let g6 = update_delta (\<lambda>d. d\<lparr>growth := 2\<rparr>) g5;
        g7 \<leftarrow> emit_item_collected ''super_jelly'' 2 candidate g6;
        Some (False, g7)
      } else if candidateTile = STAR_ITEM then do {
        g1 \<leftarrow> write_tile candidate EMPTY g;
        let g2 = g1\<lparr>starMovesRemaining := STAR_POWER_MOVES\<rparr>;
        let g3 = update_delta (\<lambda>d. d\<lparr>consumedItem := Some (candidate, candidateTile)\<rparr>) g2;
        let g4 = emit (Ev_power_start (starMovesRemaining g3)) g3;
        g5 \<leftarrow> emit_item_collected ''star'' 0 candidate g4;
        Some (True, g5)
      } else Some (False, g))"

definition handlePortalWarp :: "point \<Rightarrow> tile \<Rightarrow> game \<Rightarrow> game option" where
  "handlePortalWarp candidate candidateTile g =
     (if candidateTile \<noteq> PORTAL_A \<and> candidateTile \<noteq> PORTAL_B then Some g
      else case getPortalDestination g candidate of
        None \<Rightarrow> Some g
      | Some portalDestination \<Rightarrow>
          if \<not> canEnterTileType g (getTile g (fst portalDestination) (snd portalDestination))
          then Some g
          else (case snake g of
                  None \<Rightarrow> None
                | Some s \<Rightarrow>
                    (case segments s of
                       [] \<Rightarrow> None
                     | _ # rest \<Rightarrow>
                         Some (emit (Ev_portal_used candidate portalDestination)
                                 (update_delta (\<lambda>d. d\<lparr>portalJump := Some (candidate, portalDestination)\<rparr>)
                                    (g\<lparr>snake := Some (s\<lparr>segments := portalDestination # rest\<rparr>)\<rparr>))))))"

definition tickStarPower :: "bool \<Rightarrow> game \<Rightarrow> game" where
  "tickStarPower justActivated g =
     (if starMovesRemaining g > 0 \<and> \<not> justActivated then
        (let g1 = g\<lparr>starMovesRemaining := starMovesRemaining g - 1\<rparr>
         in if starMovesRemaining g1 \<le> 0
            then emit Ev_power_end (g1\<lparr>starMovesRemaining := 0\<rparr>)
            else g1)
      else g)"

text \<open>
  \<open>handleLevelClear\<close> without the best-move table, the replay archive and the saves.
\<close>

definition handleLevelClear :: "game \<Rightarrow> game option" where
  "handleLevelClear g =
     (case currentLevel g of
        None \<Rightarrow> None
      | Some l \<Rightarrow>
          (let g1 = g\<lparr>progressClears := progressClears g + 1\<rparr>;
               lastLevelIndex = int (length (levels g1)) - 1
           in if levelIndex g1 \<ge> lastLevelIndex then
                (let g2 = g1\<lparr>unlockedLevelIndex := lastLevelIndex\<rparr>;
                     g3 = snd (setState GAME_COMPLETE g2)
                 in Some (emit (Ev_game_complete (moveCount g3) (totalMoveCount g3)) g3))
              else
                (let g2 = g1\<lparr>unlockedLevelIndex := max (unlockedLevelIndex g1) (levelIndex g1 + 1)\<rparr>;
                     g3 = snd (setState LEVEL_COMPLETE g2)
                 in Some (emit (Ev_level_clear (level_id l) (moveCount g3)
                                  (levelCollectedItems g3) (levelTotalItems g3)) g3))))"

definition checkPostMoveState :: "game \<Rightarrow> game option" where
  "checkPostMoveState g =
     (case snake g of
        None \<Rightarrow> None
      | Some s \<Rightarrow>
          (case getHead s of
             None \<Rightarrow> None
           | Some headAfterMove \<Rightarrow>
               if getTile g (fst headAfterMove) (snd headAfterMove) = EXIT then handleLevelClear g
               else (case hasAnyValidMove g of
                       None \<Rightarrow> None
                     | Some valid \<Rightarrow>
                         if \<not> valid
                         then Some (emit Ev_deadlock
                                      (g\<lparr>deadlockHintUntil := animationTimeMs g + DEADLOCK_HINT_MS\<rparr>))
                         else Some g)))"

text \<open>
  The pacing gate of \<open>tryMove\<close>: \<open>elapsed < duration * 0.7\<close>. Times are whole
  milliseconds here and the comparison is the exact one, \<open>10 * elapsed < 7 * duration\<close>.
\<close>

definition animation_gate :: "game \<Rightarrow> bool" where
  "animation_gate g =
     (case moveAnimation g of
        None \<Rightarrow> False
      | Some a \<Rightarrow> duration a > 0 \<and> 10 * (animationTimeMs g - startAt a) < 7 * duration a)"

text \<open>
  The accepted part of \<open>tryMove\<close>, from \<open>var beforeSegments\<close> to \<open>return true\<close>.
  \<open>tryMove\<close> comes here only with a whole-number candidate, that is with a name that
  reads as a direction vector; \<open>snake.move\<close> then gives no \<open>NaN\<close> head, and that
  outcome is not continued here.
\<close>

definition resolve_move :: "string \<Rightarrow> int \<Rightarrow> point \<Rightarrow> tile \<Rightarrow> snake \<Rightarrow> game \<Rightarrow> (bool \<times> game) option" where
  "resolve_move directionName inputAt candidate candidateTile s0 g = do {
     let beforeSegments = segments s0;
     tailPos \<leftarrow> (case beforeSegments of [] \<Rightarrow> None | _ \<Rightarrow> Some (last beforeSegments));
     let delta = \<lparr>moveCountBefore = moveCount g, previousDirection = direction s0,
                  tail = tailPos, inputAtMs = inputAt, delta_direction = directionName,
                  growth = 0, consumedItem = None,
                  totalItemsBefore = totalItemsCollected g,
                  levelItemsBefore = levelCollectedItems g,
                  starMovesBefore = starMovesRemaining g, portalJump = None\<rparr>;
     let g1 = pushHistoryDelta delta g;
     s1 \<leftarrow> (case snake_move directionName s0 of Some (After s1) \<Rightarrow> Some s1 | _ \<Rightarrow> None);
     let g2 = g1\<lparr>snake := Some s1\<rparr>;
     (activatedStar, g3) \<leftarrow> handleItemCollection candidate candidateTile tailPos g2;
     g4 \<leftarrow> handlePortalWarp candidate candidateTile g3;
     let g5 = tickStarPower activatedStar g4;
     let g6 = g5\<lparr>moveCount := moveCount g5 + 1\<rparr>;
     let g7 = g6\<lparr>totalMoveCount := totalMoveCount g6 + 1\<rparr>;
     afterSegments \<leftarrow> map_option segments (snake g7);
     let g8 = startMoveAnimation beforeSegments afterSegments g7;
     let g9 = emit (Ev_move directionName (moveCount g8) (starMovesRemaining g8)) g8;
     g10 \<leftarrow> checkPostMoveState g9;
     Some (True, g10)
   }"

text \<open>
  \<open>tryMove\<close>. With a \<open>NaN\<close> candidate every comparison of \<open>isInsideBoard\<close> is
  false, \<open>getTile\<close> answers \<open>WALL\<close>, which is never enterable, and the move is blocked
  with the reason \<open>wall\<close>.
\<close>

definition tryMove :: "string \<Rightarrow> int \<Rightarrow> game \<Rightarrow> (bool \<times> game) option" where
  "tryMove directionName inputAt g =
     (if state g \<noteq> PLAYING then Some (False, g)
      else case snake g of
        None \<Rightarrow> Some (False, g)
      | Some s0 \<Rightarrow>
          if animation_gate g then Some (False, g)
          else (case getMoveCandidate g directionName of
                  None \<Rightarrow> None
                | Some None \<Rightarrow> Some (False, g)
                | Some (Some NaN_cell) \<Rightarrow> Some (False, setBlockedFeedback NaN_cell ''wall'' g)
                | Some (Some (Cell candidate)) \<Rightarrow>
                    (let candidateTile = getTile g (fst candidate) (snd candidate)
                     in if \<not> canEnterTileType g candidateTile
                        then Some (False, setBlockedFeedback (Cell candidate)
                                     (if candidateTile = OBSTACLE then ''obstacle'' else ''wall'') g)
                        else resolve_move directionName inputAt candidate candidateTile s0 g)))"

text \<open>
  \<open>undo\<close>. \<open>delta.tail\<close> is always an object, so the tail is always pushed and the
  empty-\<open>restored\<close> fallback of the source is never taken. \<open>delta.growth\<close> and
  \<open>delta.starMovesBefore\<close> are numbers, so \<open>Number(v) || 0\<close> is \<open>v\<close>.
\<close>

definition undo :: "game \<Rightarrow> (bool \<times> game) option" where
  "undo g =
     (if state g \<noteq> PLAYING then Some (False, g)
      else case history g of
        [] \<Rightarrow> Some (False, g)
      | _ \<Rightarrow> do {
          let delta = last (history g);
          let g1 = g\<lparr>history := butlast (history g)\<rparr>;
          s \<leftarrow> snake g1;
          let current = segments s;
          let grown = max 0 (int (growth delta));
          let restoreEnd = nat (max 1 (int (length current) - grown));
          let effectiveSegments =
                (case portalJump delta of
                   None \<Rightarrow> current
                 | Some (from, to) \<Rightarrow> (case current of [] \<Rightarrow> [from] | _ # rest \<Rightarrow> from # rest));
          let restored = map (\<lambda>i. effectiveSegments ! i) [1..<restoreEnd] @ [tail delta];
          g2 \<leftarrow> (case consumedItem delta of
                   None \<Rightarrow> Some g1
                 | Some (p, t) \<Rightarrow>
                     map_option
                       (\<lambda>g'. g'\<lparr>levelCollectedItems := levelItemsBefore delta,
                                totalItemsCollected := totalItemsBefore delta\<rparr>)
                       (write_tile p (if t = EMPTY then ITEM else t) g1));
          let g3 = g2\<lparr>starMovesRemaining := max 0 (starMovesBefore delta)\<rparr>;
          let g4 = g3\<lparr>snake := Some (s\<lparr>segments := restored, direction := previousDirection delta\<rparr>)\<rparr>;
          let g5 = g4\<lparr>moveCount := moveCountBefore delta\<rparr>;
          let g6 = startMoveAnimation current restored g5;
          Some (True, emit (Ev_undo (moveCount g6)) g6)
        })"

definition clamp :: "int \<Rightarrow> int \<Rightarrow> int \<Rightarrow> int" where
  "clamp v lo hi = min (max v lo) hi"

text \<open>
  \<open>loadLevel\<close>. With no levels, \<open>this.levels[-1]\<close> is \<open>undefined\<close> and reading its
  tiles throws. The cloned rows are the same list value.
\<close>

definition loadLevel :: "int \<Rightarrow> game \<Rightarrow> game option" where
  "loadLevel index g =
     (let normalized = clamp index 0 (int (length (levels g)) - 1)
      in if normalized < 0 then None
         else (let baseLevel = levels g ! nat normalized
               in case new_Snake (spawn baseLevel) (snakeLength baseLevel) (tiles baseLevel) of
                    None \<Rightarrow> None
                  | Some s \<Rightarrow>
                      Some (g\<lparr>levelIndex := normalized,
                              currentLevel := Some baseLevel,
                              snake := Some s,
                              moveCount := 0,
                              history := [],
                              discardedHistoryCount := 0,
                              moveAnimation := None,
                              feedback := None,
                              deadlockHintUntil := 0,
                              levelCollectedItems := 0,
                              levelTotalItems := countItemsInCurrentLevel (Some baseLevel),
                              starMovesRemaining := 0,
                              portalLinks := buildPortalLinks (Some baseLevel)\<rparr>)))"

definition update :: "int \<Rightarrow> game \<Rightarrow> game" where
  "update nowTimeMs g =
     (let g1 = g\<lparr>animationTimeMs := nowTimeMs\<rparr>
      in case moveAnimation g1 of
           None \<Rightarrow> g1
         | Some a \<Rightarrow>
             if duration a > 0 \<and> animationTimeMs g1 - startAt a > duration a
             then g1\<lparr>moveAnimation := None\<rparr>
             else g1)"

definition drainEvents :: "game \<Rightarrow> event list \<times> game" where
  "drainEvents g = (eventQueue g, g\<lparr>eventQueue := []\<rparr>)"

text \<open>
  A play session as the caller drives it: before each move the frame loop calls
  \<open>update\<close> with the current time, then \<open>tryMove\<close>. \<open>play_moves\<close> runs a list of
  (time, direction, input time) commands and yields a game only if every move is accepted
  and the game is still in the Playing state after it.
\<close>

fun play_moves :: "(int \<times> string \<times> int) list \<Rightarrow> game \<Rightarrow> game option" where
  "play_moves [] g = Some g"
| "play_moves ((now, directionName, inputAt) # ms) g =
     (case tryMove directionName inputAt (update now g) of
        Some (True, g') \<Rightarrow> if state g' = PLAYING then play_moves ms g' else None
      | _ \<Rightarrow> None)"

text \<open>\<open>n\<close> calls of \<open>undo\<close>, whatever each returns.\<close>

fun undos :: "nat \<Rightarrow> game \<Rightarrow> game option" where
  "undos 0 g = Some g"
| "undos (Suc n) g = (case undo g of None \<Rightarrow> None | Some (_, g') \<Rightarrow> undos n g')"

section \<open>Solvability verifier (validate-levels.js)\<close>

text \<open>
  \<open>level.tiles[ny] && level.tiles[ny][nx]\<close>: \<open>None\<close> is \<open>undefined\<close>, for a row or a
  column that the array does not have.
\<close>

definition solve_tile :: "grid \<Rightarrow> int \<Rightarrow> int \<Rightarrow> tile option" where
  "solve_tile ts nx ny =
     (if 0 \<le> ny \<and> ny < int (length ts)
      then (if 0 \<le> nx \<and> nx < int (length (ts ! nat ny)) then Some (ts ! nat ny ! nat nx) else None)
      else None)"

text \<open>The two portal lists of \<open>solveLevel\<close>: all cells of each kind, in scan order.\<close>

definition portal_cells :: "grid \<Rightarrow> tile \<Rightarrow> point list" where
  "portal_cells ts t = filter (\<lambda>p. tile_at ts (fst p) (snd p) = t) scan_cells"

text \<open>A search node: the segments, the depth and the star counter.\<close>

record search_node =
  node_segments :: "point list"
  steps :: nat
  starMoves :: int

text \<open>
  The body of the loop over the four directions in \<open>solveLevel\<close>: \<open>None\<close> is
  \<open>continue\<close> before a successor is built, otherwise the successor node (which the
  search then enqueues unless it was seen). The head of the dequeued node is
  \<open>headPos\<close>; nodes of the search always have one.
\<close>

definition successor :: "grid \<Rightarrow> search_node \<Rightarrow> point \<Rightarrow> point \<Rightarrow> search_node option" where
  "successor ts node headPos d =
     (let nx = fst headPos + fst d;
          ny = snd headPos + snd d
      in case solve_tile ts nx ny of
           None \<Rightarrow> None
         | Some t \<Rightarrow>
             if t = WALL then None
             else if t = OBSTACLE \<and> \<not> (starMoves node > 0) then None
             else
               (let nextSegments = (nx, ny) # map (\<lambda>i. node_segments node ! i)
                                                 [0..<length (node_segments node) - 1];
                    nextStarMoves = (if t = STAR_ITEM then STAR_POWER_MOVES
                                     else if starMoves node > 0 then starMoves node - 1
                                     else starMoves node);
                    portalA = portal_cells ts PORTAL_A;
                    portalB = portal_cells ts PORTAL_B;
                    warped = (if t = PORTAL_A \<and> length portalB > 0
                              then hd portalB # tl nextSegments
                              else if t = PORTAL_B \<and> length portalA > 0
                              then hd portalA # tl nextSegments
                              else nextSegments)
                in Some \<lparr>node_segments = warped, steps = steps node + 1,
                          starMoves = nextStarMoves\<rparr>))"

text \<open>The successor for a direction name of the loop, from the node's own head.\<close>

definition solve_step :: "grid \<Rightarrow> search_node \<Rightarrow> string \<Rightarrow> search_node option" where
  "solve_step ts node directionName =
     (case (node_segments node, DIRECTIONS directionName) of
        (headPos # _, Some (Vec d)) \<Rightarrow> successor ts node headPos d
      | _ \<Rightarrow> None)"

section \<open>Level parsing (levels.js)\<close>

datatype parse_error =
    Invalid_level_definition
  | Wrong_row_count
  | Wrong_col_count int
  | Unknown_map_symbol char
  | Multiple_spawn_points
  | Missing_spawn_point
  | Missing_exit

text \<open>
  A level definition; \<open>def_map = None\<close> is a \<open>map\<close> that is not an array. Rows are
  strings of one-byte characters, as all map symbols are.
\<close>

record level_def =
  def_id :: nat
  def_snakeLength :: int
  def_map :: "string list option"

definition charToTile :: "char \<Rightarrow> parse_error + tile" where
  "charToTile c =
     (if c = CHR ''.'' then Inr EMPTY
      else if c = CHR ''#'' then Inr WALL
      else if c = CHR ''E'' then Inr EXIT
      else if c = CHR ''X'' then Inr OBSTACLE
      else if c = CHR ''S'' then Inr SPAWN
      else if c = CHR ''I'' then Inr ITEM
      else if c = CHR ''G'' then Inr BIG_ITEM
      else if c = CHR ''T'' then Inr STAR_ITEM
      else if c = CHR ''P'' then Inr PORTAL_A
      else if c = CHR ''Q'' then Inr PORTAL_B
      else Inl (Unknown_map_symbol c))"

text \<open>
  The parser's running variables: the spawn found so far, the exit count and the rows
  pushed so far.
\<close>

type_synonym parse_state = "point option \<times> nat \<times> grid"

text \<open>
  The inner loop over the columns of one row, from column \<open>x\<close>, over the characters
  still to read; the row's length has been checked to be \<open>GRID_COLS\<close>.
\<close>

fun parse_cols :: "string \<Rightarrow> int \<Rightarrow> int \<Rightarrow> point option \<Rightarrow> nat \<Rightarrow> tile list
                     \<Rightarrow> parse_error + (point option \<times> nat \<times> tile list)" where
  "parse_cols [] x y sp exitCount tileRow = Inr (sp, exitCount, tileRow)"
| "parse_cols (c # cs) x y sp exitCount tileRow =
     (case charToTile c of
        Inl e \<Rightarrow> Inl e
      | Inr t \<Rightarrow>
          if t = SPAWN then
            (if sp \<noteq> None then Inl Multiple_spawn_points
             else parse_cols cs (x + 1) y (Some (x, y)) exitCount (tileRow @ [EMPTY]))
          else parse_cols cs (x + 1) y sp (if t = EXIT then exitCount + 1 else exitCount)
                 (tileRow @ [t]))"

text \<open>The outer loop over the rows, from row \<open>y\<close>.\<close>

fun parse_rows :: "string list \<Rightarrow> int \<Rightarrow> parse_state \<Rightarrow> parse_error + parse_state" where
  "parse_rows [] y st = Inr st"
| "parse_rows (row # rows) y (sp, exitCount, ts) =
     (if int (length row) \<noteq> GRID_COLS then Inl (Wrong_col_count y)
      else case parse_cols row 0 y sp exitCount [] of
             Inl e \<Rightarrow> Inl e
           | Inr (sp', exitCount', tileRow) \<Rightarrow> parse_rows rows (y + 1) (sp', exitCount', ts @ [tileRow]))"

text \<open>\<open>parseMap\<close>; the argument \<open>None\<close> is a missing definition.\<close>

definition parseMap :: "level_def option \<Rightarrow> parse_error + level" where
  "parseMap levelDef =
     (case levelDef of
        None \<Rightarrow> Inl Invalid_level_definition
      | Some ld \<Rightarrow>
          (case def_map ld of
             None \<Rightarrow> Inl Invalid_level_definition
           | Some rows \<Rightarrow>
               if int (length rows) \<noteq> GRID_ROWS then Inl Wrong_row_count
               else (case parse_rows rows 0 (None, 0, []) of
                       Inl e \<Rightarrow> Inl e
                     | Inr (sp, exitCount, ts) \<Rightarrow>
                         (case sp of
                            None \<Rightarrow> Inl Missing_spawn_point
                          | Some p \<Rightarrow>
                              if exitCount = 0 then Inl Missing_exit
                              else Inr \<lparr>level_id = def_id ld, snakeLength = def_snakeLength ld,
                                        spawn = p, tiles = ts\<rparr>))))"

section \<open>Portal placement in the generator (levels.js)\<close>

















section \<open>Auxiliary notions for the properties\<close>

text \<open>The number of segments a pickup adds.\<close>

definition item_growth :: "tile \<Rightarrow> nat" where
  "item_growth t = (if t = ITEM then 1 else if t = BIG_ITEM then 2 else 0)"

definition is_pickup :: "tile \<Rightarrow> bool" where
  "is_pickup t \<longleftrightarrow> t = ITEM \<or> t = BIG_ITEM \<or> t = STAR_ITEM"

text \<open>Where a move onto cell \<open>c\<close> with tile \<open>t\<close> is warped to, if it is warped.\<close>

definition warp_target :: "game \<Rightarrow> point \<Rightarrow> tile \<Rightarrow> point option" where
  "warp_target g c t =
     (if t = PORTAL_A \<or> t = PORTAL_B then
        (case getPortalDestination g c of
           None \<Rightarrow> None
         | Some dest \<Rightarrow>
             if canEnterTileType g (getTile g (fst dest) (snd dest)) then Some dest else None)
      else None)"

text \<open>The segment list of the game's snake; empty when there is no snake.\<close>

definition segs :: "game \<Rightarrow> point list" where
  "segs g = (case snake g of None \<Rightarrow> [] | Some s \<Rightarrow> segments s)"

text \<open>The grid of the level in play; empty when no level is loaded.\<close>

definition cur_tiles :: "game \<Rightarrow> grid" where
  "cur_tiles g = (case currentLevel g of None \<Rightarrow> [] | Some l \<Rightarrow> tiles l)"

text \<open>
  The part of the game that a move changes and an undo has to bring back, history aside:
  state, snake, level in play, move count, star counter and the two item counters.
\<close>

definition core :: "game \<Rightarrow> game_state \<times> snake option \<times> level option \<times> nat \<times> int \<times> nat \<times> nat" where
  "core g = (state g, snake g, currentLevel g, moveCount g, starMovesRemaining g,
             levelCollectedItems g, totalItemsCollected g)"

text \<open>The segment list that \<open>undo\<close> rebuilds from a history entry and the current segments.\<close>

definition undo_segments :: "history_delta \<Rightarrow> point list \<Rightarrow> point list" where
  "undo_segments dl current =
     map (\<lambda>i. (case portalJump dl of None \<Rightarrow> current
                | Some (from, to) \<Rightarrow> (case current of [] \<Rightarrow> [from] | _ # rest \<Rightarrow> from # rest)) ! i)
       [1..<nat (max 1 (int (length current) - max 0 (int (growth dl))))] @ [tail dl]"

text \<open>
  The cell a move in direction \<open>d\<close> leads to (the candidate head of \<open>tryMove\<close>) and
  the tile there, as \<open>getTile\<close> reports it.
\<close>

definition move_target :: "game \<Rightarrow> string \<Rightarrow> point" where
  "move_target g d = (case getMoveCandidate g d of Some (Some (Cell c)) \<Rightarrow> c | _ \<Rightarrow> (0, 0))"

definition target_tile :: "game \<Rightarrow> string \<Rightarrow> tile" where
  "target_tile g d = getTile g (fst (move_target g d)) (snd (move_target g d))"

text \<open>The number of \<open>power_end\<close> notifications in a list of events.\<close>

definition count_power_end :: "event list \<Rightarrow> nat" where
  "count_power_end evs = length (filter (\<lambda>e. e = Ev_power_end) evs)"

text \<open>
  A walk on the grid from cell \<open>p\<close>: every cell is the neighbour to the right, below,
  left or above of the one before it, and is walkable.
\<close>

fun walk_from :: "grid \<Rightarrow> point \<Rightarrow> point list \<Rightarrow> bool" where
  "walk_from ts p [] = True"
| "walk_from ts p (q # qs) \<longleftrightarrow>
     q \<in> set (map (step_to p) baseOrder) \<and> isWalkable ts (fst q) (snd q) \<and> walk_from ts q qs"

text \<open>
  The scan order of the board: \<open>q\<close> lies in a row above \<open>p\<close>, or in the same row to
  the left of it.
\<close>

definition scan_before :: "point \<Rightarrow> point \<Rightarrow> bool" where
  "scan_before q p \<longleftrightarrow> snd q < snd p \<or> (snd q = snd p \<and> fst q < fst p)"

section \<open>A test level\<close>

definition demo_rows :: "string list" where
  "demo_rows =
     [''####################'',
      ''S..ITX.P..........E#'',
      ''G###################'',
      ''####################'',
      ''####################'',
      ''####################'',
      ''####################'',
      ''####################'',
      ''####################'',
      ''####################'',
      ''####################'',
      ''####################'',
      ''####################'',
      ''##########Q.########'',
      ''####################'']"

definition demo_def :: level_def where
  "demo_def = \<lparr>def_id = 1, def_snakeLength = 1, def_map = Some demo_rows\<rparr>"

definition demo_tiles :: grid where
  "demo_tiles =
     [[WALL, WALL, WALL, WALL, WALL, WALL, WALL, WALL, WALL, WALL, WALL, WALL, WALL, WALL, WALL, WALL, WALL, WALL, WALL, WALL],
      [EMPTY, EMPTY, EMPTY, ITEM, STAR_ITEM, OBSTACLE, EMPTY, PORTAL_A, EMPTY, EMPTY, EMPTY, EMPTY, EMPTY, EMPTY, EMPTY, EMPTY, EMPTY, EMPTY, EXIT, WALL],
      [BIG_ITEM, WALL, WALL, WALL, WALL, WALL, WALL, WALL, WALL, WALL, WALL, WALL, WALL, WALL, WALL, WALL, WALL, WALL, WALL, WALL],
      [WALL, WALL, WALL, WALL, WALL, WALL, WALL, WALL, WALL, WALL, WALL, WALL, WALL, WALL, WALL, WALL, WALL, WALL, WALL, WALL],
      [WALL, WALL, WALL, WALL, WALL, WALL, WALL, WALL, WALL, WALL, WALL, WALL, WALL, WALL, WALL, WALL, WALL, WALL, WALL, WALL],
      [WALL, WALL, WALL, WALL, WALL, WALL, WALL, WALL, WALL, WALL, WALL, WALL, WALL, WALL, WALL, WALL, WALL, WALL, WALL, WALL],
      [WALL, WALL, WALL, WALL, WALL, WALL, WALL, WALL, WALL, WALL, WALL, WALL, WALL, WALL, WALL, WALL, WALL, WALL, WALL, WALL],
      [WALL, WALL, WALL, WALL, WALL, WALL, WALL, WALL, WALL, WALL, WALL, WALL, WALL, WALL, WALL, WALL, WALL, WALL, WALL, WALL],
      [WALL, WALL, WALL, WALL, WALL, WALL, WALL, WALL, WALL, WALL, WALL, WALL, WALL, WALL, WALL, WALL, WALL, WALL, WALL, WALL],
      [WALL, WALL, WALL, WALL, WALL, WALL, WALL, WALL, WALL, WALL, WALL, WALL, WALL, WALL, WALL, WALL, WALL, WALL, WALL, WALL],
      [WALL, WALL, WALL, WALL, WALL, WALL, WALL, WALL, WALL, WALL, WALL, WALL, WALL, WALL, WALL, WALL, WALL, WALL, WALL, WALL],
      [WALL, WALL, WALL, WALL, WALL, WALL, WALL, WALL, WALL, WALL, WALL, WALL, WALL, WALL, WALL, WALL, WALL, WALL, WALL, WALL],
      [WALL, WALL, WALL, WALL, WALL, WALL, WALL, WALL, WALL, WALL, WALL, WALL, WALL, WALL, WALL, WALL, WALL, WALL, WALL, WALL],
      [WALL, WALL, WALL, WALL, WALL, WALL, WALL, WALL, WALL, WALL, PORTAL_B, EMPTY, WALL, WALL, WALL, WALL, WALL, WALL, WALL, WALL],
      [WALL, WALL, WALL, WALL, WALL, WALL, WALL, WALL, WALL, WALL, WALL, WALL, WALL, WALL, WALL, WALL, WALL, WALL, WALL, WALL]]"

definition demo_level :: level where
  "demo_level = \<lparr>level_id = 1, snakeLength = 1, spawn = (0, 1), tiles = demo_tiles\<rparr>"

text \<open>A fresh game on the title screen with the test level as its only level.\<close>

definition demo_title :: game where
  "demo_title =
     \<lparr>levels = [demo_level], state = TITLE, levelIndex = 0, unlockedLevelIndex = 0,
      currentLevel = None, snake = None, moveCount = 0, totalMoveCount = 0, history = [],
      discardedHistoryCount = 0, animationTimeMs = 0, moveAnimation = None, feedback = None,
      progressClears = 0, eventQueue = [], deadlockHintUntil = 0, levelCollectedItems = 0,
      levelTotalItems = 0, totalItemsCollected = 0, starMovesRemaining = 0, portalLinks = [],
      reduceMotion = True\<rparr>"

text \<open>The same game after \<open>loadLevel(0)\<close> and \<open>setState(PLAYING)\<close>.\<close>

definition demo_game :: game where
  "demo_game =
     \<lparr>levels = [demo_level], state = PLAYING, levelIndex = 0, unlockedLevelIndex = 0,
      currentLevel = Some demo_level,
      snake = Some \<lparr>segments = [(0, 1)], direction = ''right''\<rparr>,
      moveCount = 0, totalMoveCount = 0, history = [],
      discardedHistoryCount = 0, animationTimeMs = 0, moveAnimation = None, feedback = None,
      progressClears = 0, eventQueue = [], deadlockHintUntil = 0, levelCollectedItems = 0,
      levelTotalItems = 2, totalItemsCollected = 0, starMovesRemaining = 0,
      portalLinks = [((7, 1), (10, 13)), ((10, 13), (7, 1))],
      reduceMotion = True\<rparr>"

text \<open>The test level in play with the snake placed at a chosen cell.\<close>

definition demo_at :: "point list \<Rightarrow> game" where
  "demo_at ps = demo_game\<lparr>snake := Some \<lparr>segments = ps, direction = ''right''\<rparr>\<rparr>"

text \<open>
  The test level in play with a one-segment snake at cell \<open>p\<close>, no star power, and
  motion reduced, so that no move animation holds the next move back.
\<close>

definition on_demo :: "game \<Rightarrow> point \<Rightarrow> bool" where
  "on_demo g p \<longleftrightarrow>
     state g = PLAYING \<and> currentLevel g = Some demo_level \<and> reduceMotion g \<and>
     starMovesRemaining g = 0 \<and> (\<exists>s. snake g = Some s \<and> segments s = [p]) \<and>
     (\<forall>a. moveAnimation g = Some a \<longrightarrow> duration a = 0)"

text \<open>
  A run of \<open>n\<close> moves between two neighbouring cells, alternating right and left and
  ending with a move to the right; all at time 0.
\<close>

fun pingpong :: "nat \<Rightarrow> (int \<times> string \<times> int) list" where
  "pingpong 0 = []"
| "pingpong (Suc n) = (0, if even n then ''right'' else ''left'', 0) # pingpong n"

text \<open>The events a step has added to the queue.\<close>

definition new_events :: "game \<Rightarrow> game \<Rightarrow> event list" where
  "new_events g g' = drop (length (eventQueue g)) (eventQueue g')"

definition is_power_start :: "event \<Rightarrow> bool" where
  "is_power_start e = (case e of Ev_power_start _ \<Rightarrow> True | _ \<Rightarrow> False)"

text \<open>A list with its last element changed by \<open>f\<close>: a write to the newest history entry.\<close>

definition map_last :: "('a \<Rightarrow> 'a) \<Rightarrow> 'a list \<Rightarrow> 'a list" where
  "map_last f xs = (case xs of [] \<Rightarrow> [] | _ \<Rightarrow> butlast xs @ [f (last xs)])"

text \<open>What item collection on tile \<open>t\<close> at cell \<open>c\<close> writes into the move's history entry.\<close>

definition item_delta :: "point \<Rightarrow> tile \<Rightarrow> history_delta \<Rightarrow> history_delta" where
  "item_delta c t d =
     (if t = ITEM \<or> t = BIG_ITEM then d\<lparr>growth := item_growth t, consumedItem := Some (c, t)\<rparr>
      else if t = STAR_ITEM then d\<lparr>consumedItem := Some (c, t)\<rparr>
      else d)"

text \<open>The history entry of an accepted move onto cell \<open>c\<close> with tile \<open>ct\<close>, once resolved.\<close>

definition move_delta :: "game \<Rightarrow> snake \<Rightarrow> string \<Rightarrow> int \<Rightarrow> point \<Rightarrow> tile \<Rightarrow> history_delta" where
  "move_delta g s0 d t c ct =
     \<lparr>moveCountBefore = moveCount g, previousDirection = direction s0,
      tail = last (segments s0), inputAtMs = t, delta_direction = d,
      growth = item_growth ct,
      consumedItem = (if is_pickup ct then Some (c, ct) else None),
      totalItemsBefore = totalItemsCollected g,
      levelItemsBefore = levelCollectedItems g,
      starMovesBefore = starMovesRemaining g,
      portalJump = map_option (\<lambda>dest. (c, dest)) (warp_target g c ct)\<rparr>"

text \<open>
  The segments after an accepted move: the new head (the warp target, if the move is
  warped), the old segments without the last, and one copy of the old tail per grown
  segment.
\<close>

definition moved_segments :: "game \<Rightarrow> snake \<Rightarrow> point \<Rightarrow> tile \<Rightarrow> point list" where
  "moved_segments g s0 c ct =
     (case warp_target g c ct of None \<Rightarrow> c | Some dest \<Rightarrow> dest)
       # butlast (segments s0) @ replicate (item_growth ct) (last (segments s0))"

text \<open>
  A run of seven moves to the right on the test level: two plain steps, an Item, a
  StarItem, an Obstacle passed under star power, a plain step and the portal.
\<close>

definition demo_run :: "(int \<times> string \<times> int) list" where
  "demo_run = replicate 7 (0, ''right'', 0)"

text \<open>
  Eight moves on the test level after the StarItem at (4, 1) has been taken from (3, 1):
  over the Obstacle, through the portal and back, ending on the emptied StarItem cell.
\<close>

definition star_run :: "(int \<times> string \<times> int) list" where
  "star_run = replicate 4 (0, ''right'', 0) @ replicate 4 (0, ''left'', 0)"

text \<open>
  A game in play that stands where a search node of the verifier stands: the same grid
  (of the parsed shape), the same segments and star counter, the link table that
  \<open>loadLevel\<close> builds for this grid, and no move animation holding the next move back.
\<close>

definition engine_matches :: "game \<Rightarrow> grid \<Rightarrow> search_node \<Rightarrow> bool" where
  "engine_matches g ts node \<longleftrightarrow>
     state g = PLAYING \<and> \<not> animation_gate g \<and> wf_grid ts \<and> node_segments node \<noteq> [] \<and>
     (\<exists>s. snake g = Some s \<and> segments s = node_segments node) \<and>
     (\<exists>l. currentLevel g = Some l \<and> tiles l = ts \<and> portalLinks g = buildPortalLinks (Some l)) \<and>
     starMovesRemaining g = starMoves node"

text \<open>
  The destination of a move is a portal tile other than the first of its kind in scan
  order: the case in which the engine's link table and the verifier's portal lists differ.
\<close>

definition later_portal :: "grid \<Rightarrow> tile \<Rightarrow> point \<Rightarrow> bool" where
  "later_portal ts t c \<longleftrightarrow> (t = PORTAL_A \<or> t = PORTAL_B) \<and> first_tile ts t \<noteq> Some c"

text \<open>The start node of the verifier's search on the test level.\<close>

definition demo_node :: search_node where
  "demo_node = \<lparr>node_segments = [(0, 1)], steps = 0, starMoves = 0\<rparr>"

text \<open>The map symbols, and the tile kind that \<open>parseMap\<close> stores for each.\<close>

definition known_symbol :: "char \<Rightarrow> bool" where
  "known_symbol c \<longleftrightarrow> c \<in> set ''.#EXSIGTPQ''"

definition tile_of_char :: "char \<Rightarrow> tile" where
  "tile_of_char c = (case charToTile c of Inr t \<Rightarrow> (if t = SPAWN then EMPTY else t) | Inl _ \<Rightarrow> EMPTY)"

text \<open>
  A well-formed map, in the claim's words: exactly \<open>GRID_ROWS\<close> rows, each of exactly
  \<open>GRID_COLS\<close> known symbols, with exactly one \<open>S\<close> and at least one \<open>E\<close>.
\<close>

definition valid_map :: "string list \<Rightarrow> bool" where
  "valid_map rows \<longleftrightarrow>
     int (length rows) = GRID_ROWS \<and>
     list_all (\<lambda>row. int (length row) = GRID_COLS \<and> list_all known_symbol row) rows \<and>
     count_list (concat rows) (CHR ''S'') = 1 \<and>
     count_list (concat rows) (CHR ''E'') \<ge> 1"

text \<open>The column of the first \<open>S\<close> in a row, and the row of the first \<open>S\<close> in a map.\<close>

definition spawn_col :: "string \<Rightarrow> nat" where
  "spawn_col cs = length (takeWhile (\<lambda>c. c \<noteq> CHR ''S'') cs)"

definition spawn_row :: "string list \<Rightarrow> nat" where
  "spawn_row rows = length (takeWhile (\<lambda>row. CHR ''S'' \<notin> set row) rows)"


text \<open>
  A level definition brought into play: parsed, made the only level of a fresh game on the
  title screen, loaded with \<open>loadLevel(0)\<close>, and switched to the Playing state.
\<close>

definition start_game :: "level_def \<Rightarrow> game option" where
  "start_game ld =
     (case parseMap (Some ld) of
        Inl e \<Rightarrow> None
      | Inr lv \<Rightarrow>
          map_option (\<lambda>gl. snd (setState PLAYING gl)) (loadLevel 0 (demo_title\<lparr>levels := [lv]\<rparr>)))"

text \<open>
  A plus-shaped level: the spawn in the middle of four one-cell arms, one of them the
  exit, and an initial length of three.
\<close>

definition plus_rows :: "string list" where
  "plus_rows =
     [''####################'',
      ''##.#################'',
      ''#.SE################'',
      ''##.#################'',
      ''####################'',
      ''####################'',
      ''####################'',
      ''####################'',
      ''####################'',
      ''####################'',
      ''####################'',
      ''####################'',
      ''####################'',
      ''####################'',
      ''####################'']"

definition plus_def :: level_def where
  "plus_def = \<lparr>def_id = 2, def_snakeLength = 3, def_map = Some plus_rows\<rparr>"

text \<open>A corridor with two StarItems, two cells apart.\<close>

definition star2_rows :: "string list" where
  "star2_rows =
     [''####################'',
      ''S.T.T..............E'',
      ''####################'',
      ''####################'',
      ''####################'',
      ''####################'',
      ''####################'',
      ''####################'',
      ''####################'',
      ''####################'',
      ''####################'',
      ''####################'',
      ''####################'',
      ''####################'',
      ''####################'']"

definition star2_def :: level_def where
  "star2_def = \<lparr>def_id = 3, def_snakeLength = 1, def_map = Some star2_rows\<rparr>"

text \<open>The test level with an initial length of three.\<close>

definition demo3_def :: level_def where
  "demo3_def = \<lparr>def_id = 4, def_snakeLength = 3, def_map = Some demo_rows\<rparr>"
section \<open>Properties\<close>


subsection \<open>Frame lemmas for the handlers\<close>

lemmas hic_defs = handleItemCollection_def write_tile_def grow_snake_def emit_item_collected_def
      emit_def update_delta_def growByTailPosition_def bind_eq_Some_conv Let_def item_growth_def
      is_pickup_def

lemma hic_snake:
  assumes "handleItemCollection c ct tp g = Some (a, g')" and "snake g = Some s"
  shows "snake g' = Some (s\<lparr>segments := segments s @ replicate (item_growth ct) tp\<rparr>)"
  using assms by (auto simp: hic_defs numeral_2_eq_2 split: if_splits option.splits)

lemma hic_flag:
  "handleItemCollection c ct tp g = Some (a, g') \<Longrightarrow> a = (ct = STAR_ITEM)"
  by (auto simp: hic_defs split: if_splits option.splits)

lemma hic_star:
  "handleItemCollection c ct tp g = Some (a, g') \<Longrightarrow>
     starMovesRemaining g' = (if ct = STAR_ITEM then STAR_POWER_MOVES else starMovesRemaining g)"
  by (auto simp: hic_defs split: if_splits option.splits)

lemma hic_level:
  "handleItemCollection c ct tp g = Some (a, g') \<Longrightarrow>
     (if is_pickup ct
      then \<exists>l. currentLevel g = Some l \<and>
               currentLevel g' = Some (l\<lparr>tiles := set_tile (fst c) (snd c) EMPTY (tiles l)\<rparr>)
      else currentLevel g' = currentLevel g)"
  by (auto simp: hic_defs split: if_splits option.splits)

lemma hic_counters:
  "handleItemCollection c ct tp g = Some (a, g') \<Longrightarrow>
     levelCollectedItems g' = levelCollectedItems g + (if ct = ITEM \<or> ct = BIG_ITEM then 1 else 0) \<and>
     totalItemsCollected g' = totalItemsCollected g + (if ct = ITEM \<or> ct = BIG_ITEM then 1 else 0)"
  by (auto simp: hic_defs split: if_splits option.splits)

lemma hic_history:
  "handleItemCollection c ct tp g = Some (a, g') \<Longrightarrow>
     history g' = map_last (item_delta c ct) (history g)"
  by (auto simp: hic_defs map_last_def item_delta_def split: if_splits option.splits list.splits)

lemma hic_frame:
  "handleItemCollection c ct tp g = Some (a, g') \<Longrightarrow>
     state g' = state g \<and> moveCount g' = moveCount g \<and> totalMoveCount g' = totalMoveCount g \<and>
     portalLinks g' = portalLinks g \<and> levels g' = levels g \<and> levelIndex g' = levelIndex g \<and>
     animationTimeMs g' = animationTimeMs g \<and> moveAnimation g' = moveAnimation g \<and>
     reduceMotion g' = reduceMotion g \<and> feedback g' = feedback g \<and>
     discardedHistoryCount g' = discardedHistoryCount g \<and> levelTotalItems g' = levelTotalItems g"
  by (auto simp: hic_defs split: if_splits option.splits)

lemma hic_events:
  "handleItemCollection c ct tp g = Some (a, g') \<Longrightarrow>
     \<exists>evs. eventQueue g' = eventQueue g @ evs \<and> Ev_power_end \<notin> set evs \<and>
           (list_ex is_power_start evs \<longleftrightarrow> ct = STAR_ITEM)"
  by (auto simp: hic_defs is_power_start_def split: if_splits option.splits)

lemma hic_portal_noop:
  "ct = PORTAL_A \<or> ct = PORTAL_B \<Longrightarrow> handleItemCollection c ct tp g = Some (False, g)"
  by (auto simp: handleItemCollection_def)

lemmas hpw_defs = handlePortalWarp_def warp_target_def emit_def update_delta_def

lemma hpw_snake:
  assumes "handlePortalWarp c ct g = Some g'" and "snake g = Some s"
  shows "snake g' = Some (case warp_target g c ct of None \<Rightarrow> s
                          | Some dest \<Rightarrow> s\<lparr>segments := dest # tl (segments s)\<rparr>)"
    and "warp_target g c ct \<noteq> None \<longrightarrow> segments s \<noteq> []"
  using assms by (auto simp: hpw_defs split: if_splits option.splits list.splits)

lemma hpw_history:
  "handlePortalWarp c ct g = Some g' \<Longrightarrow>
     history g' = (case warp_target g c ct of None \<Rightarrow> history g
                   | Some dest \<Rightarrow> map_last (\<lambda>d. d\<lparr>portalJump := Some (c, dest)\<rparr>) (history g))"
  by (auto simp: hpw_defs map_last_def split: if_splits option.splits list.splits)

lemma hpw_frame:
  "handlePortalWarp c ct g = Some g' \<Longrightarrow>
     state g' = state g \<and> moveCount g' = moveCount g \<and> totalMoveCount g' = totalMoveCount g \<and>
     portalLinks g' = portalLinks g \<and> levels g' = levels g \<and> levelIndex g' = levelIndex g \<and>
     animationTimeMs g' = animationTimeMs g \<and> moveAnimation g' = moveAnimation g \<and>
     reduceMotion g' = reduceMotion g \<and> feedback g' = feedback g \<and>
     discardedHistoryCount g' = discardedHistoryCount g \<and> levelTotalItems g' = levelTotalItems g \<and>
     currentLevel g' = currentLevel g \<and> starMovesRemaining g' = starMovesRemaining g \<and>
     levelCollectedItems g' = levelCollectedItems g \<and> totalItemsCollected g' = totalItemsCollected g"
  by (auto simp: hpw_defs split: if_splits option.splits list.splits)

lemma hpw_events:
  "handlePortalWarp c ct g = Some g' \<Longrightarrow>
     \<exists>evs. eventQueue g' = eventQueue g @ evs \<and> Ev_power_end \<notin> set evs \<and> \<not> list_ex is_power_start evs"
  by (auto simp: hpw_defs is_power_start_def split: if_splits option.splits list.splits)

lemma tick_frame:
  "snake (tickStarPower a g) = snake g"
  "currentLevel (tickStarPower a g) = currentLevel g"
  "history (tickStarPower a g) = history g"
  "moveCount (tickStarPower a g) = moveCount g"
  "totalMoveCount (tickStarPower a g) = totalMoveCount g"
  "state (tickStarPower a g) = state g"
  "levelCollectedItems (tickStarPower a g) = levelCollectedItems g"
  "totalItemsCollected (tickStarPower a g) = totalItemsCollected g"
  "portalLinks (tickStarPower a g) = portalLinks g"
  "levels (tickStarPower a g) = levels g"
  "levelIndex (tickStarPower a g) = levelIndex g"
  "animationTimeMs (tickStarPower a g) = animationTimeMs g"
  "moveAnimation (tickStarPower a g) = moveAnimation g"
  "reduceMotion (tickStarPower a g) = reduceMotion g"
  "feedback (tickStarPower a g) = feedback g"
  "discardedHistoryCount (tickStarPower a g) = discardedHistoryCount g"
  "levelTotalItems (tickStarPower a g) = levelTotalItems g"
  by (simp_all add: tickStarPower_def emit_def Let_def)

lemma tick_star:
  "starMovesRemaining (tickStarPower a g) =
     (if starMovesRemaining g > 0 \<and> \<not> a then starMovesRemaining g - 1 else starMovesRemaining g)"
  by (auto simp: tickStarPower_def emit_def Let_def)

lemma tick_events:
  "eventQueue (tickStarPower a g) =
     eventQueue g @ (if starMovesRemaining g = 1 \<and> \<not> a then [Ev_power_end] else [])"
  by (auto simp: tickStarPower_def emit_def Let_def)

lemma cpms_frame:
  "checkPostMoveState g = Some g' \<Longrightarrow>
     snake g' = snake g \<and> currentLevel g' = currentLevel g \<and> history g' = history g \<and>
     moveCount g' = moveCount g \<and> totalMoveCount g' = totalMoveCount g \<and>
     portalLinks g' = portalLinks g \<and> levels g' = levels g \<and> levelIndex g' = levelIndex g \<and>
     animationTimeMs g' = animationTimeMs g \<and> moveAnimation g' = moveAnimation g \<and>
     reduceMotion g' = reduceMotion g \<and> feedback g' = feedback g \<and>
     discardedHistoryCount g' = discardedHistoryCount g \<and> levelTotalItems g' = levelTotalItems g \<and>
     starMovesRemaining g' = starMovesRemaining g \<and>
     levelCollectedItems g' = levelCollectedItems g \<and> totalItemsCollected g' = totalItemsCollected g"
  by (auto simp: checkPostMoveState_def handleLevelClear_def setState_def emit_def Let_def
      split: if_splits option.splits)

lemma cpms_events:
  "checkPostMoveState g = Some g' \<Longrightarrow>
     \<exists>evs. eventQueue g' = eventQueue g @ evs \<and> Ev_power_end \<notin> set evs \<and> \<not> list_ex is_power_start evs"
  by (auto simp: checkPostMoveState_def handleLevelClear_def setState_def emit_def Let_def
      is_power_start_def split: if_splits option.splits)

lemma push_history:
  "history (pushHistoryDelta d g) =
     (if length (history g) \<ge> HISTORY_LIMIT then tl (history g) @ [d] else history g @ [d])"
  by (cases "history g") (auto simp: pushHistoryDelta_def Let_def HISTORY_LIMIT_def)

lemma push_frame:
  "snake (pushHistoryDelta d g) = snake g"
  "currentLevel (pushHistoryDelta d g) = currentLevel g"
  "moveCount (pushHistoryDelta d g) = moveCount g"
  "totalMoveCount (pushHistoryDelta d g) = totalMoveCount g"
  "state (pushHistoryDelta d g) = state g"
  "levelCollectedItems (pushHistoryDelta d g) = levelCollectedItems g"
  "totalItemsCollected (pushHistoryDelta d g) = totalItemsCollected g"
  "portalLinks (pushHistoryDelta d g) = portalLinks g"
  "levels (pushHistoryDelta d g) = levels g"
  "levelIndex (pushHistoryDelta d g) = levelIndex g"
  "animationTimeMs (pushHistoryDelta d g) = animationTimeMs g"
  "moveAnimation (pushHistoryDelta d g) = moveAnimation g"
  "reduceMotion (pushHistoryDelta d g) = reduceMotion g"
  "feedback (pushHistoryDelta d g) = feedback g"
  "levelTotalItems (pushHistoryDelta d g) = levelTotalItems g"
  "starMovesRemaining (pushHistoryDelta d g) = starMovesRemaining g"
  "eventQueue (pushHistoryDelta d g) = eventQueue g"
  by (simp_all add: pushHistoryDelta_def Let_def)


lemma warp_target_cong:
  "portalLinks g' = portalLinks g \<Longrightarrow> starMovesRemaining g' = starMovesRemaining g \<Longrightarrow>
   currentLevel g' = currentLevel g \<Longrightarrow> warp_target g' c ct = warp_target g c ct"
  by (auto simp: warp_target_def getPortalDestination_def canEnterTileType_def isStarActive_def
      getTile_def split: option.splits)

lemma warp_target_portal: "warp_target g c ct = Some dest \<Longrightarrow> ct = PORTAL_A \<or> ct = PORTAL_B"
  by (auto simp: warp_target_def split: if_splits)

lemma snake_move_case:
  "(case snake_move d s0 of Some (After s1) \<Rightarrow> Some s1 | _ \<Rightarrow> None) = Some s1
     \<longleftrightarrow> snake_move d s0 = Some (After s1)"
  by (auto split: option.splits snake_after.splits)

lemma resolve_move_stages:
  assumes R: "resolve_move d t c ct s0 g = Some (b, g')"
  obtains s1 a g3 g4 g9 where
    "segments s0 \<noteq> []"
    "snake_move d s0 = Some (After s1)"
    "handleItemCollection c ct (last (segments s0))
       ((pushHistoryDelta ((move_delta g s0 d t c ct)\<lparr>growth := 0, consumedItem := None, portalJump := None\<rparr>) g)\<lparr>snake := Some s1\<rparr>) = Some (a, g3)"
    "handlePortalWarp c ct g3 = Some g4"
    "snake g4 \<noteq> None"
    "g9 = emit (Ev_move d (Suc (moveCount g4)) (starMovesRemaining (tickStarPower a g4)))
            (startMoveAnimation (segments s0) (segs g4)
               ((tickStarPower a g4)\<lparr>moveCount := moveCount g4 + 1,
                                      totalMoveCount := totalMoveCount g4 + 1\<rparr>))"
    "checkPostMoveState g9 = Some g'" "b = True"
  using R
  apply (simp add: resolve_move_def bind_eq_Some_conv Let_def move_delta_def tick_frame segs_def
      startMoveAnimation_def snake_move_case
      split: list.splits prod.splits)
  apply (auto simp: tick_frame)
  done


lemma snake_move_result:
  "snake_move d s0 = Some (After s1) \<Longrightarrow> DIRECTIONS d = Some (Vec dv) \<Longrightarrow> segments s0 = h # rest \<Longrightarrow>
   s1 = s0\<lparr>segments := (fst h + fst dv, snd h + snd dv) # butlast (segments s0), direction := d\<rparr>"
  by (auto simp: snake_move_def getHead_def split: option.splits list.splits)

lemma map_last_snoc: "map_last f (xs @ [x]) = xs @ [f x]"
  by (cases xs) (simp_all add: map_last_def)

lemma resolve_move_result:
  assumes R: "resolve_move d t c ct s0 g = Some (b, g')"
    and D: "DIRECTIONS d = Some (Vec dv)"
    and H: "segments s0 = h # rest"
    and C: "c = (fst h + fst dv, snd h + snd dv)"
  shows "snake g' = Some (s0\<lparr>segments := moved_segments g s0 c ct, direction := d\<rparr>)"
    and "history g' = (if length (history g) \<ge> HISTORY_LIMIT then tl (history g) else history g)
                        @ [move_delta g s0 d t c ct]"
    and "starMovesRemaining g' =
           (if ct = STAR_ITEM then STAR_POWER_MOVES
            else if starMovesRemaining g > 0 then starMovesRemaining g - 1
            else starMovesRemaining g)"
    and "if is_pickup ct
         then \<exists>l. currentLevel g = Some l \<and>
                  currentLevel g' = Some (l\<lparr>tiles := set_tile (fst c) (snd c) EMPTY (tiles l)\<rparr>)
         else currentLevel g' = currentLevel g"
    and "levelCollectedItems g' = levelCollectedItems g + (if ct = ITEM \<or> ct = BIG_ITEM then 1 else 0)"
    and "totalItemsCollected g' = totalItemsCollected g + (if ct = ITEM \<or> ct = BIG_ITEM then 1 else 0)"
    and "moveCount g' = moveCount g + 1"
    and "totalMoveCount g' = totalMoveCount g + 1"
    and "portalLinks g' = portalLinks g"
    and "b = True"
proof -
  let ?d0 = "(move_delta g s0 d t c ct)\<lparr>growth := 0, consumedItem := None, portalJump := None\<rparr>"
  let ?g2 = "\<lambda>s1. (pushHistoryDelta ?d0 g)\<lparr>snake := Some s1\<rparr>"
  from R obtain s1 a g3 g4 g9 where
    ne: "segments s0 \<noteq> []" and sm: "snake_move d s0 = Some (After s1)"
    and hic: "handleItemCollection c ct (last (segments s0)) (?g2 s1) = Some (a, g3)"
    and hpw: "handlePortalWarp c ct g3 = Some g4"
    and g9: "g9 = emit (Ev_move d (Suc (moveCount g4)) (starMovesRemaining (tickStarPower a g4)))
            (startMoveAnimation (segments s0) (segs g4)
               ((tickStarPower a g4)\<lparr>moveCount := moveCount g4 + 1,
                                      totalMoveCount := totalMoveCount g4 + 1\<rparr>))"
    and cp: "checkPostMoveState g9 = Some g'" and b: "b = True"
    by (rule resolve_move_stages)
  show "b = True" by (rule b)
  have s1: "s1 = s0\<lparr>segments := c # butlast (segments s0), direction := d\<rparr>"
    using snake_move_result [OF sm D H] C by simp
  have snake3: "snake g3 = Some (s1\<lparr>segments := segments s1 @ replicate (item_growth ct) (last (segments s0))\<rparr>)"
    using hic_snake [OF hic] by simp
  have wt3: "warp_target g3 c ct = warp_target g c ct"
  proof (cases "ct = PORTAL_A \<or> ct = PORTAL_B")
    case True
    then have "handleItemCollection c ct (last (segments s0)) (?g2 s1) = Some (False, ?g2 s1)"
      by (rule hic_portal_noop)
    with hic have g3: "g3 = ?g2 s1" by simp
    show ?thesis by (rule warp_target_cong) (simp_all add: g3 push_frame)
  next
    case False
    then show ?thesis by (simp add: warp_target_def)
  qed
  have snake4: "snake g4 = Some (case warp_target g c ct of
                   None \<Rightarrow> s1\<lparr>segments := segments s1 @ replicate (item_growth ct) (last (segments s0))\<rparr>
                 | Some dest \<Rightarrow> s1\<lparr>segments := dest # tl (segments s1 @ replicate (item_growth ct) (last (segments s0)))\<rparr>)"
    using hpw_snake(1) [OF hpw snake3] wt3 by (simp split: option.splits)
  have frame9: "snake g9 = snake g4" "history g9 = history g4" "currentLevel g9 = currentLevel g4"
    "starMovesRemaining g9 = starMovesRemaining (tickStarPower a g4)"
    "levelCollectedItems g9 = levelCollectedItems g4" "totalItemsCollected g9 = totalItemsCollected g4"
    "moveCount g9 = moveCount g4 + 1" "totalMoveCount g9 = totalMoveCount g4 + 1"
    "portalLinks g9 = portalLinks g4"
    by (simp_all add: g9 emit_def startMoveAnimation_def tick_frame)
  note f3 = hic_frame [OF hic] and f4 = hpw_frame [OF hpw] and f10 = cpms_frame [OF cp]
  show "snake g' = Some (s0\<lparr>segments := moved_segments g s0 c ct, direction := d\<rparr>)"
    using f10 frame9 snake4 s1 by (auto simp: moved_segments_def split: option.splits)
  have h3: "history g3 = (if length (history g) \<ge> HISTORY_LIMIT then tl (history g) else history g)
                          @ [item_delta c ct ?d0]"
    using hic_history [OF hic] by (simp add: push_history map_last_snoc)
  have h4: "history g4 = (if length (history g) \<ge> HISTORY_LIMIT then tl (history g) else history g)
                          @ [case warp_target g c ct of None \<Rightarrow> item_delta c ct ?d0
                             | Some dest \<Rightarrow> (item_delta c ct ?d0)\<lparr>portalJump := Some (c, dest)\<rparr>]"
    using hpw_history [OF hpw] wt3 h3 by (simp add: map_last_snoc split: option.splits)
  have fd: "(case warp_target g c ct of None \<Rightarrow> item_delta c ct ?d0
             | Some dest \<Rightarrow> (item_delta c ct ?d0)\<lparr>portalJump := Some (c, dest)\<rparr>) = move_delta g s0 d t c ct"
    by (auto simp: item_delta_def move_delta_def is_pickup_def item_growth_def
        dest: warp_target_portal split: option.splits)
  show "history g' = (if length (history g) \<ge> HISTORY_LIMIT then tl (history g) else history g)
                        @ [move_delta g s0 d t c ct]"
    using f10 frame9 h4 fd by simp
  show "starMovesRemaining g' =
           (if ct = STAR_ITEM then STAR_POWER_MOVES
            else if starMovesRemaining g > 0 then starMovesRemaining g - 1
            else starMovesRemaining g)"
    using f10 frame9 f4 hic_star [OF hic] hic_flag [OF hic]
    by (simp add: tick_star push_frame STAR_POWER_MOVES_def)
  show "if is_pickup ct
         then \<exists>l. currentLevel g = Some l \<and>
                  currentLevel g' = Some (l\<lparr>tiles := set_tile (fst c) (snd c) EMPTY (tiles l)\<rparr>)
         else currentLevel g' = currentLevel g"
    using f10 frame9 f4 hic_level [OF hic] by (simp add: push_frame split: if_splits)
  show "levelCollectedItems g' = levelCollectedItems g + (if ct = ITEM \<or> ct = BIG_ITEM then 1 else 0)"
    using f10 frame9 f4 hic_counters [OF hic] by (simp add: push_frame)
  show "totalItemsCollected g' = totalItemsCollected g + (if ct = ITEM \<or> ct = BIG_ITEM then 1 else 0)"
    using f10 frame9 f4 hic_counters [OF hic] by (simp add: push_frame)
  show "moveCount g' = moveCount g + 1"
    using f10 frame9 f4 f3 by (simp add: push_frame)
  show "totalMoveCount g' = totalMoveCount g + 1"
    using f10 frame9 f4 f3 by (simp add: push_frame)
  show "portalLinks g' = portalLinks g"
    using f10 frame9 f4 f3 by (simp add: push_frame)
qed


lemma resolve_move_True: "resolve_move d t c ct s0 g = Some (b, g') \<Longrightarrow> b"
  by (erule resolve_move_stages) simp

lemma tryMove_accepted:
  assumes "tryMove d t g = Some (True, g')"
  obtains s0 dv h rest where
    "state g = PLAYING" "snake g = Some s0" "\<not> animation_gate g" "DIRECTIONS d = Some (Vec dv)"
    "segments s0 = h # rest"
    "canEnterTileType g (getTile g (fst h + fst dv) (snd h + snd dv))"
    "resolve_move d t (fst h + fst dv, snd h + snd dv) (getTile g (fst h + fst dv) (snd h + snd dv)) s0 g
       = Some (True, g')"
  using assms
  by (auto simp: tryMove_def getMoveCandidate_def getHead_def Let_def
      split: if_splits option.splits list.splits table_entry.splits)

text \<open>
  A whole-number candidate comes from a direction vector only, and \<open>snake.move\<close> with
  that name shifts the snake onto it: the accepted part of \<open>tryMove\<close> never meets the
  \<open>NaN\<close> head.
\<close>

lemma candidate_cell_own:
  assumes "getMoveCandidate g d = Some (Some (Cell c))"
  shows "\<exists>dv s h rest. DIRECTIONS d = Some (Vec dv) \<and> snake g = Some s \<and> segments s = h # rest \<and>
           c = (fst h + fst dv, snd h + snd dv) \<and>
           snake_move d s = Some (After (s\<lparr>segments := c # butlast (segments s), direction := d\<rparr>))"
proof -
  from assms obtain dv s h rest where
    f: "DIRECTIONS d = Some (Vec dv)" "snake g = Some s" "segments s = h # rest"
      "c = (fst h + fst dv, snd h + snd dv)"
    by (auto simp: getMoveCandidate_def getHead_def
        split: option.splits list.splits table_entry.splits)
  have "snake_move d s = Some (After (s\<lparr>segments := c # butlast (segments s), direction := d\<rparr>))"
    using f by (simp add: snake_move_def getHead_def)
  with f show ?thesis by blast
qed

lemma tryMove_rejected:
  assumes "tryMove d t g = Some (False, g')"
  shows "g' = g \<or> (\<exists>c r. g' = setBlockedFeedback c r g)"
proof -
  have "g' = g \<or> g' = setBlockedFeedback NaN_cell ''wall'' g \<or>
        (\<exists>c r. g' = setBlockedFeedback (Cell c) r g)"
    using assms
    apply (simp add: tryMove_def getMoveCandidate_def getHead_def Let_def
        split: if_splits option.splits list.splits table_entry.splits cell.splits)
    apply (blast dest: resolve_move_True)+
    done
  then show ?thesis by blast
qed

lemma blocked_frame:
  "snake (setBlockedFeedback c r g) = snake g"
  "currentLevel (setBlockedFeedback c r g) = currentLevel g"
  "moveCount (setBlockedFeedback c r g) = moveCount g"
  "totalMoveCount (setBlockedFeedback c r g) = totalMoveCount g"
  "state (setBlockedFeedback c r g) = state g"
  "history (setBlockedFeedback c r g) = history g"
  "levelCollectedItems (setBlockedFeedback c r g) = levelCollectedItems g"
  "totalItemsCollected (setBlockedFeedback c r g) = totalItemsCollected g"
  "starMovesRemaining (setBlockedFeedback c r g) = starMovesRemaining g"
  "eventQueue (setBlockedFeedback c r g) = eventQueue g @ [Ev_blocked r c]"
  by (simp_all add: setBlockedFeedback_def emit_def)

lemma getTile_pickup_level: "getTile g x y \<noteq> WALL \<Longrightarrow> currentLevel g \<noteq> None \<and> isInside x y"
  by (auto simp: getTile_def split: option.splits if_splits)

lemma hic_defined:
  assumes "snake g \<noteq> None" and "is_pickup ct \<longrightarrow> currentLevel g \<noteq> None"
  shows "\<exists>a g'. handleItemCollection c ct tp g = Some (a, g')"
  using assms by (auto simp: hic_defs split: option.splits)

lemma hpw_defined:
  assumes "snake g = Some s" and "segments s \<noteq> []"
  shows "\<exists>g'. handlePortalWarp c ct g = Some g'"
  using assms by (auto simp: handlePortalWarp_def split: option.splits list.splits)

lemma cpms_defined:
  assumes "snake g = Some s" and "segments s \<noteq> []"
  shows "\<exists>g'. checkPostMoveState g = Some g'"
proof -
  from assms obtain h rest where h: "segments s = h # rest" by (cases "segments s") auto
  have cand: "\<not> list_ex (\<lambda>n. getMoveCandidate g n = None) directionNames"
    using assms h by (simp add: directionNames_def getMoveCandidate_def getHead_def DIRECTIONS_def)
  show ?thesis
  proof (cases "getTile g (fst h) (snd h) = EXIT")
    case True
    then have "currentLevel g \<noteq> None" using getTile_pickup_level [of g "fst h" "snd h"] by simp
    then show ?thesis using assms h True
      by (auto simp: checkPostMoveState_def getHead_def handleLevelClear_def Let_def)
  next
    case False
    then show ?thesis using assms h cand
      by (auto simp: checkPostMoveState_def getHead_def hasAnyValidMove_def)
  qed
qed

lemma tryMove_accepts:
  assumes st: "state g = PLAYING" and sn: "snake g = Some s0" and sg: "segments s0 = h # rest"
    and gate: "\<not> animation_gate g" and D: "DIRECTIONS d = Some (Vec dv)"
    and ent: "canEnterTileType g (getTile g (fst h + fst dv) (snd h + snd dv))"
  shows "\<exists>g'. tryMove d t g = Some (True, g')"
proof -
  let ?c = "(fst h + fst dv, snd h + snd dv)"
  let ?ct = "getTile g (fst h + fst dv) (snd h + snd dv)"
  let ?d0 = "(move_delta g s0 d t ?c ?ct)\<lparr>growth := 0, consumedItem := None, portalJump := None\<rparr>"
  let ?s1 = "s0\<lparr>segments := ?c # butlast (segments s0), direction := d\<rparr>"
  let ?g2 = "(pushHistoryDelta ?d0 g)\<lparr>snake := Some ?s1\<rparr>"
  have sm: "snake_move d s0 = Some (After ?s1)"
    using D sg by (simp add: snake_move_def getHead_def)
  have nw: "?ct \<noteq> WALL" using ent by (auto simp: canEnterTileType_def)
  then have lv: "currentLevel g \<noteq> None" using getTile_pickup_level by blast
  obtain a g3 where hic: "handleItemCollection ?c ?ct (last (segments s0)) ?g2 = Some (a, g3)"
    using hic_defined [of ?g2 ?ct ?c "last (segments s0)"] lv by (auto simp: push_frame)
  have sn3: "snake g3 = Some (?s1\<lparr>segments := segments ?s1 @ replicate (item_growth ?ct) (last (segments s0))\<rparr>)"
    using hic_snake [OF hic, of ?s1] by simp
  obtain g4 where hpw: "handlePortalWarp ?c ?ct g3 = Some g4"
    using hpw_defined [OF sn3, of ?c ?ct] by auto
  obtain s4 where sn4: "snake g4 = Some s4" and ne4: "segments s4 \<noteq> []"
    using hpw_snake(1) [OF hpw sn3] by (auto split: option.splits)
  let ?g9 = "emit (Ev_move d (Suc (moveCount g4)) (starMovesRemaining (tickStarPower a g4)))
            (startMoveAnimation (segments s0) (segments s4)
               ((tickStarPower a g4)\<lparr>moveCount := moveCount g4 + 1,
                                      totalMoveCount := totalMoveCount g4 + 1\<rparr>))"
  have sn9: "snake ?g9 = Some s4" by (simp add: emit_def startMoveAnimation_def tick_frame sn4)
  obtain g10 where cp: "checkPostMoveState ?g9 = Some g10"
    using cpms_defined [OF sn9 ne4] by auto
  have "resolve_move d t ?c ?ct s0 g = Some (True, g10)"
    using sg sm hic hpw sn4 cp
    by (simp add: resolve_move_def Let_def move_delta_def tick_frame startMoveAnimation_def)
  then show ?thesis using st sn sg gate D ent
    by (simp add: tryMove_def getMoveCandidate_def getHead_def Let_def)
qed

lemma cpms_state:
  assumes "checkPostMoveState g = Some g'" and "state g = PLAYING" and "snake g = Some s"
    and "segments s = h # rest"
  shows "state g' = PLAYING \<longleftrightarrow> getTile g (fst h) (snd h) \<noteq> EXIT"
  using assms
  by (auto simp: checkPostMoveState_def handleLevelClear_def setState_def emit_def Let_def
      getHead_def isTransitionAllowed_def split: if_splits option.splits)

subsection \<open>Rejected moves\<close>


lemma tryMove_blocked:
  assumes "state g = PLAYING" "snake g = Some s" "segments s = h # rest" "\<not> animation_gate g"
    "DIRECTIONS d = Some (Vec dv)" "\<not> canEnterTileType g (getTile g (fst h + fst dv) (snd h + snd dv))"
  shows "tryMove d t g = Some (False, setBlockedFeedback (Cell (fst h + fst dv, snd h + snd dv))
           (if getTile g (fst h + fst dv) (snd h + snd dv) = OBSTACLE then ''obstacle'' else ''wall'') g)"
  using assms by (simp add: tryMove_def getMoveCandidate_def getHead_def Let_def)

lemma tryMove_gated:
  assumes "state g \<noteq> PLAYING \<or> snake g = None \<or> animation_gate g \<or> DIRECTIONS d = None"
  shows "tryMove d t g = Some (False, g)"
  using assms by (auto simp: tryMove_def getMoveCandidate_def split: option.splits)

lemma tryMove_inherited:
  assumes "state g = PLAYING" "snake g = Some s" "segments s \<noteq> []" "\<not> animation_gate g"
    "DIRECTIONS d = Some Inherited"
  shows "tryMove d t g = Some (False, setBlockedFeedback NaN_cell ''wall'' g)"
  using assms by (cases "segments s") (simp_all add: tryMove_def getMoveCandidate_def getHead_def)

lemma DIRECTIONS_constructor: "DIRECTIONS ''constructor'' = Some Inherited"
  by (simp add: DIRECTIONS_def Object_prototype_names_def)

lemma DIRECTIONS_sideways: "DIRECTIONS ''sideways'' = None"
  by (simp add: DIRECTIONS_def Object_prototype_names_def)

text \<open>
  C4. A rejected \<open>tryMove\<close> returns false and leaves snake (segments and facing), level
  grid, move counters, star counter, item counters, state and history as they were. Every
  listed cause rejects: a state other than Playing, no snake, the animation gate and a
  direction name that reads as \<open>undefined\<close> in the table return the game unchanged; a
  Wall destination, and an Obstacle destination with a star counter of zero, return the
  game with the blocked feedback set and one \<open>blocked\<close> notification queued, tagged
  \<open>wall\<close> and \<open>obstacle\<close>. A name that the table inherits from
  \<open>Object.prototype\<close>, such as \<open>constructor\<close>, gives a \<open>NaN\<close> candidate, which is
  rejected as a wall, with the feedback set and the notification queued.
\<close>

theorem rejected_move_is_noop:
  "(tryMove d t g = Some (False, g') \<longrightarrow>
      snake g' = snake g \<and> currentLevel g' = currentLevel g \<and> moveCount g' = moveCount g \<and>
      totalMoveCount g' = totalMoveCount g \<and> starMovesRemaining g' = starMovesRemaining g \<and>
      history g' = history g \<and> levelCollectedItems g' = levelCollectedItems g \<and>
      totalItemsCollected g' = totalItemsCollected g \<and> state g' = state g) \<and>
   (state g \<noteq> PLAYING \<or> snake g = None \<or> animation_gate g \<or> DIRECTIONS d = None \<longrightarrow>
      tryMove d t g = Some (False, g)) \<and>
   (state g = PLAYING \<and> snake g = Some s \<and> segments s = h # rest \<and> \<not> animation_gate g \<and>
    DIRECTIONS d = Some (Vec dv) \<and> c = (fst h + fst dv, snd h + snd dv) \<longrightarrow>
      (getTile g (fst c) (snd c) = WALL \<longrightarrow>
         tryMove d t g = Some (False, setBlockedFeedback (Cell c) ''wall'' g) \<and>
         eventQueue (setBlockedFeedback (Cell c) ''wall'' g) = eventQueue g @ [Ev_blocked ''wall'' (Cell c)]) \<and>
      (getTile g (fst c) (snd c) = OBSTACLE \<and> starMovesRemaining g = 0 \<longrightarrow>
         tryMove d t g = Some (False, setBlockedFeedback (Cell c) ''obstacle'' g) \<and>
         eventQueue (setBlockedFeedback (Cell c) ''obstacle'' g) = eventQueue g @ [Ev_blocked ''obstacle'' (Cell c)])) \<and>
   (state g = PLAYING \<and> snake g = Some s \<and> segments s \<noteq> [] \<and> \<not> animation_gate g \<and>
    DIRECTIONS d = Some Inherited \<longrightarrow>
      tryMove d t g = Some (False, setBlockedFeedback NaN_cell ''wall'' g) \<and>
      eventQueue (setBlockedFeedback NaN_cell ''wall'' g) = eventQueue g @ [Ev_blocked ''wall'' NaN_cell])"
proof -
  have p1: "snake g' = snake g \<and> currentLevel g' = currentLevel g \<and> moveCount g' = moveCount g \<and>
      totalMoveCount g' = totalMoveCount g \<and> starMovesRemaining g' = starMovesRemaining g \<and>
      history g' = history g \<and> levelCollectedItems g' = levelCollectedItems g \<and>
      totalItemsCollected g' = totalItemsCollected g \<and> state g' = state g"
    if "tryMove d t g = Some (False, g')"
  proof -
    from that have "g' = g \<or> (\<exists>c r. g' = setBlockedFeedback c r g)" by (rule tryMove_rejected)
    then show ?thesis by (auto simp: blocked_frame)
  qed
  have p2: "tryMove d t g = Some (False, g)"
    if "state g \<noteq> PLAYING \<or> snake g = None \<or> animation_gate g \<or> DIRECTIONS d = None"
    using that by (rule tryMove_gated)
  have p3: "tryMove d t g = Some (False, setBlockedFeedback (Cell c) ''wall'' g)"
    if a: "state g = PLAYING \<and> snake g = Some s \<and> segments s = h # rest \<and> \<not> animation_gate g \<and>
       DIRECTIONS d = Some (Vec dv) \<and> c = (fst h + fst dv, snd h + snd dv)"
      and w: "getTile g (fst c) (snd c) = WALL"
  proof -
    have "\<not> canEnterTileType g (getTile g (fst h + fst dv) (snd h + snd dv))"
      using a w by (simp add: canEnterTileType_def)
    with a w show ?thesis using tryMove_blocked [of g s h rest d dv t] by simp
  qed
  have p4: "tryMove d t g = Some (False, setBlockedFeedback (Cell c) ''obstacle'' g)"
    if a: "state g = PLAYING \<and> snake g = Some s \<and> segments s = h # rest \<and> \<not> animation_gate g \<and>
       DIRECTIONS d = Some (Vec dv) \<and> c = (fst h + fst dv, snd h + snd dv)"
      and w: "getTile g (fst c) (snd c) = OBSTACLE \<and> starMovesRemaining g = 0"
  proof -
    have "\<not> canEnterTileType g (getTile g (fst h + fst dv) (snd h + snd dv))"
      using a w by (simp add: canEnterTileType_def isStarActive_def)
    with a w show ?thesis using tryMove_blocked [of g s h rest d dv t] by simp
  qed
  have p5: "eventQueue (setBlockedFeedback (Cell c) r g) = eventQueue g @ [Ev_blocked r (Cell c)]" for r
    by (simp add: blocked_frame)
  have P1: "tryMove d t g = Some (False, g') \<longrightarrow>
      snake g' = snake g \<and> currentLevel g' = currentLevel g \<and> moveCount g' = moveCount g \<and>
      totalMoveCount g' = totalMoveCount g \<and> starMovesRemaining g' = starMovesRemaining g \<and>
      history g' = history g \<and> levelCollectedItems g' = levelCollectedItems g \<and>
      totalItemsCollected g' = totalItemsCollected g \<and> state g' = state g"
    using p1 by (rule impI)
  have P2: "state g \<noteq> PLAYING \<or> snake g = None \<or> animation_gate g \<or> DIRECTIONS d = None \<longrightarrow>
      tryMove d t g = Some (False, g)"
    using p2 by (rule impI)
  have P3: "state g = PLAYING \<and> snake g = Some s \<and> segments s = h # rest \<and> \<not> animation_gate g \<and>
    DIRECTIONS d = Some (Vec dv) \<and> c = (fst h + fst dv, snd h + snd dv) \<longrightarrow>
      (getTile g (fst c) (snd c) = WALL \<longrightarrow>
         tryMove d t g = Some (False, setBlockedFeedback (Cell c) ''wall'' g) \<and>
         eventQueue (setBlockedFeedback (Cell c) ''wall'' g) = eventQueue g @ [Ev_blocked ''wall'' (Cell c)]) \<and>
      (getTile g (fst c) (snd c) = OBSTACLE \<and> starMovesRemaining g = 0 \<longrightarrow>
         tryMove d t g = Some (False, setBlockedFeedback (Cell c) ''obstacle'' g) \<and>
         eventQueue (setBlockedFeedback (Cell c) ''obstacle'' g) = eventQueue g @ [Ev_blocked ''obstacle'' (Cell c)])"
    by (simp add: p3 p4 blocked_frame)
  have P4: "state g = PLAYING \<and> snake g = Some s \<and> segments s \<noteq> [] \<and> \<not> animation_gate g \<and>
    DIRECTIONS d = Some Inherited \<longrightarrow>
      tryMove d t g = Some (False, setBlockedFeedback NaN_cell ''wall'' g) \<and>
      eventQueue (setBlockedFeedback NaN_cell ''wall'' g) = eventQueue g @ [Ev_blocked ''wall'' NaN_cell]"
    by (simp add: tryMove_inherited blocked_frame)
  show ?thesis by (intro conjI P1 P2 P3 P4)
qed

lemma demo_game_basics:
  "state demo_game = PLAYING"
  "snake demo_game = Some \<lparr>segments = [(0, 1)], direction = ''right''\<rparr>"
  "\<not> animation_gate demo_game"
  "starMovesRemaining demo_game = 0"
  "currentLevel demo_game = Some demo_level"
  "history demo_game = []"
  by (simp_all add: demo_game_def animation_gate_def)

lemma demo_at_basics:
  "state (demo_at ps) = PLAYING"
  "snake (demo_at ps) = Some \<lparr>segments = ps, direction = ''right''\<rparr>"
  "\<not> animation_gate (demo_at ps)"
  "starMovesRemaining (demo_at ps) = 0"
  "currentLevel (demo_at ps) = Some demo_level"
  "history (demo_at ps) = []"
  by (simp_all add: demo_at_def demo_game_def animation_gate_def)

lemma getTile_demo:
  "getTile (demo_at ps) x y = (if isInside x y then tile_at demo_tiles x y else WALL)"
  "getTile demo_game x y = (if isInside x y then tile_at demo_tiles x y else WALL)"
  by (simp_all add: getTile_def demo_at_basics demo_game_basics demo_level_def)

lemma demo_cells:
  "tile_at demo_tiles 0 0 = WALL"
  "tile_at demo_tiles 1 1 = EMPTY"
  "tile_at demo_tiles 0 1 = EMPTY"
  "tile_at demo_tiles 2 1 = EMPTY"
  "tile_at demo_tiles 3 1 = ITEM"
  "tile_at demo_tiles 4 1 = STAR_ITEM"
  "tile_at demo_tiles 5 1 = OBSTACLE"
  "tile_at demo_tiles 6 1 = EMPTY"
  "tile_at demo_tiles 7 1 = PORTAL_A"
  "tile_at demo_tiles 0 2 = BIG_ITEM"
  "tile_at demo_tiles 10 13 = PORTAL_B"
  "tile_at demo_tiles 18 1 = EXIT"
  by code_simp+

lemma DIRECTIONS_simps:
  "DIRECTIONS ''up'' = Some (Vec (0, -1))" "DIRECTIONS ''down'' = Some (Vec (0, 1))"
  "DIRECTIONS ''left'' = Some (Vec (-1, 0))" "DIRECTIONS ''right'' = Some (Vec (1, 0))"
  by (simp_all add: DIRECTIONS_def)

lemma isInside_simps:
  "isInside x y \<longleftrightarrow> 0 \<le> x \<and> 0 \<le> y \<and> x < 20 \<and> y < 15"
  by (simp add: isInside_def GRID_COLS_def GRID_ROWS_def)



theorem rejected_move_is_noop_witness:
  "tryMove ''up'' 0 demo_game = Some (False, setBlockedFeedback (Cell (0, 0)) ''wall'' demo_game) \<and>
   eventQueue (setBlockedFeedback (Cell (0, 0)) ''wall'' demo_game)
     = eventQueue demo_game @ [Ev_blocked ''wall'' (Cell (0, 0))] \<and>
   tryMove ''left'' 0 (demo_at [(6, 1)])
     = Some (False, setBlockedFeedback (Cell (5, 1)) ''obstacle'' (demo_at [(6, 1)])) \<and>
   tryMove ''up'' 0 demo_title = Some (False, demo_title) \<and>
   tryMove ''sideways'' 0 demo_game = Some (False, demo_game) \<and>
   tryMove ''constructor'' 0 demo_game
     = Some (False, setBlockedFeedback NaN_cell ''wall'' demo_game) \<and>
   eventQueue (setBlockedFeedback NaN_cell ''wall'' demo_game)
     = eventQueue demo_game @ [Ev_blocked ''wall'' NaN_cell] \<and>
   snake (setBlockedFeedback NaN_cell ''wall'' demo_game) = snake demo_game \<and>
   snake (setBlockedFeedback (Cell (0, 0)) ''wall'' demo_game) = snake demo_game \<and>
   history (setBlockedFeedback (Cell (0, 0)) ''wall'' demo_game) = history demo_game"
proof -
  let ?s = "\<lparr>segments = [(0, 1)], direction = ''right''\<rparr>"
  let ?s6 = "\<lparr>segments = [(6, 1)], direction = ''right''\<rparr>"
  have h1: "state demo_game = PLAYING \<and> snake demo_game = Some ?s \<and> segments ?s = (0, 1) # [] \<and>
      \<not> animation_gate demo_game \<and> DIRECTIONS ''up'' = Some (Vec (0, -1)) \<and>
      (0, 0) = (fst (0::int, 1::int) + fst (0::int, -1::int), snd (0::int, 1::int) + snd (0::int, -1::int))"
    by (simp add: demo_game_basics DIRECTIONS_simps)
  have t1: "getTile demo_game (fst (0::int, 0::int)) (snd (0::int, 0::int)) = WALL"
    by (simp add: getTile_demo demo_cells isInside_simps)
  note a = rejected_move_is_noop [of "''up''" 0 demo_game
      "setBlockedFeedback (Cell (0, 0)) ''wall'' demo_game" ?s "(0, 1)" "[]" "(0, -1)" "(0, 0)"]
  note a3 = a [THEN conjunct2, THEN conjunct2, THEN conjunct1, THEN mp, OF h1, THEN conjunct1,
      THEN mp, OF t1]
  note a1 = a [THEN conjunct1, THEN mp, OF a3 [THEN conjunct1]]
  have h2: "state (demo_at [(6, 1)]) = PLAYING \<and> snake (demo_at [(6, 1)]) = Some ?s6 \<and>
      segments ?s6 = (6, 1) # [] \<and> \<not> animation_gate (demo_at [(6, 1)]) \<and>
      DIRECTIONS ''left'' = Some (Vec (-1, 0)) \<and>
      (5, 1) = (fst (6::int, 1::int) + fst (-1::int, 0::int), snd (6::int, 1::int) + snd (-1::int, 0::int))"
    by (simp add: demo_at_basics DIRECTIONS_simps)
  have t2: "getTile (demo_at [(6, 1)]) (fst (5::int, 1::int)) (snd (5::int, 1::int)) = OBSTACLE \<and>
      starMovesRemaining (demo_at [(6, 1)]) = 0"
    by (simp add: getTile_demo demo_cells isInside_simps demo_at_basics)
  note b = rejected_move_is_noop [of "''left''" 0 "demo_at [(6, 1)]" demo_game ?s6 "(6, 1)" "[]"
      "(-1, 0)" "(5, 1)"]
  note b3 = b [THEN conjunct2, THEN conjunct2, THEN conjunct1, THEN mp, OF h2, THEN conjunct2,
      THEN mp, OF t2]
  have h3: "state demo_title \<noteq> PLAYING \<or> snake demo_title = None \<or> animation_gate demo_title \<or>
      DIRECTIONS ''up'' = None"
    by (simp add: demo_title_def)
  note c = rejected_move_is_noop [of "''up''" 0 demo_title demo_title ?s "(0, 1)" "[]" "(0, -1)" "(0, 0)"]
  note c2 = c [THEN conjunct2, THEN conjunct1, THEN mp, OF h3]
  have h4: "state demo_game \<noteq> PLAYING \<or> snake demo_game = None \<or> animation_gate demo_game \<or>
      DIRECTIONS ''sideways'' = None"
    by (simp add: DIRECTIONS_sideways)
  note e = rejected_move_is_noop [of "''sideways''" 0 demo_game demo_game ?s "(0, 1)" "[]"
      "(0, -1)" "(0, 0)"]
  note e2 = e [THEN conjunct2, THEN conjunct1, THEN mp, OF h4]
  have h5: "state demo_game = PLAYING \<and> snake demo_game = Some ?s \<and> segments ?s \<noteq> [] \<and>
      \<not> animation_gate demo_game \<and> DIRECTIONS ''constructor'' = Some Inherited"
    by (simp add: demo_game_basics DIRECTIONS_constructor)
  note f = rejected_move_is_noop [of "''constructor''" 0 demo_game
      "setBlockedFeedback NaN_cell ''wall'' demo_game" ?s "(0, 1)" "[]" "(0, -1)" "(0, 0)"]
  note f4 = f [THEN conjunct2, THEN conjunct2, THEN conjunct2, THEN mp, OF h5]
  note f1 = f [THEN conjunct1, THEN mp, OF f4 [THEN conjunct1]]
  show ?thesis using a3 a1 b3 c2 e2 f4 f1 by simp
qed


subsection \<open>What an accepted move does\<close>

lemma move_target_eq:
  "snake g = Some s0 \<Longrightarrow> segments s0 = h # rest \<Longrightarrow> DIRECTIONS d = Some (Vec dv) \<Longrightarrow>
   move_target g d = (fst h + fst dv, snd h + snd dv)"
  by (simp add: move_target_def getMoveCandidate_def getHead_def)

lemma tryMove_result:
  assumes A: "tryMove d t g = Some (True, g')"
  obtains s0 where
    "state g = PLAYING" "snake g = Some s0" "segments s0 \<noteq> []" "\<not> animation_gate g"
    "DIRECTIONS d \<noteq> None"
    "canEnterTileType g (target_tile g d)"
    "snake g' = Some (s0\<lparr>segments := moved_segments g s0 (move_target g d) (target_tile g d),
                          direction := d\<rparr>)"
    "history g' = (if length (history g) \<ge> HISTORY_LIMIT then tl (history g) else history g)
                    @ [move_delta g s0 d t (move_target g d) (target_tile g d)]"
    "starMovesRemaining g' =
       (if target_tile g d = STAR_ITEM then STAR_POWER_MOVES
        else if starMovesRemaining g > 0 then starMovesRemaining g - 1
        else starMovesRemaining g)"
    "if is_pickup (target_tile g d)
     then \<exists>l. currentLevel g = Some l \<and>
              currentLevel g' = Some (l\<lparr>tiles := set_tile (fst (move_target g d)) (snd (move_target g d))
                                                   EMPTY (tiles l)\<rparr>)
     else currentLevel g' = currentLevel g"
    "levelCollectedItems g' = levelCollectedItems g
        + (if target_tile g d = ITEM \<or> target_tile g d = BIG_ITEM then 1 else 0)"
    "totalItemsCollected g' = totalItemsCollected g
        + (if target_tile g d = ITEM \<or> target_tile g d = BIG_ITEM then 1 else 0)"
    "moveCount g' = moveCount g + 1"
    "totalMoveCount g' = totalMoveCount g + 1"
    "portalLinks g' = portalLinks g"
proof -
  from A obtain s0 dv h rest where
    st: "state g = PLAYING" and sn: "snake g = Some s0" and ga: "\<not> animation_gate g"
    and D: "DIRECTIONS d = Some (Vec dv)" and sg: "segments s0 = h # rest"
    and ent: "canEnterTileType g (getTile g (fst h + fst dv) (snd h + snd dv))"
    and R: "resolve_move d t (fst h + fst dv, snd h + snd dv)
              (getTile g (fst h + fst dv) (snd h + snd dv)) s0 g = Some (True, g')"
    by (rule tryMove_accepted)
  have mt: "move_target g d = (fst h + fst dv, snd h + snd dv)"
    using sn sg D by (rule move_target_eq)
  have tt: "target_tile g d = getTile g (fst h + fst dv) (snd h + snd dv)"
    by (simp add: target_tile_def mt)
  note r = resolve_move_result [OF R D sg refl, folded mt, folded tt]
  show ?thesis
    by (rule that [of s0]) (use st sn sg ga D ent tt r in simp_all)
qed


lemma count_power_end_append [simp]:
  "count_power_end (xs @ ys) = count_power_end xs + count_power_end ys"
  by (simp add: count_power_end_def)

lemma count_power_end_none: "Ev_power_end \<notin> set evs \<Longrightarrow> count_power_end evs = 0"
  by (induction evs) (auto simp: count_power_end_def)

lemma resolve_move_events:
  assumes R: "resolve_move d t c ct s0 g = Some (b, g')"
  shows "\<exists>evs. eventQueue g' = eventQueue g @ evs \<and>
           count_power_end evs = (if starMovesRemaining g = 1 \<and> ct \<noteq> STAR_ITEM then 1 else 0) \<and>
           (list_ex is_power_start evs \<longleftrightarrow> ct = STAR_ITEM)"
proof -
  let ?d0 = "(move_delta g s0 d t c ct)\<lparr>growth := 0, consumedItem := None, portalJump := None\<rparr>"
  let ?g2 = "\<lambda>s1. (pushHistoryDelta ?d0 g)\<lparr>snake := Some s1\<rparr>"
  from R obtain s1 a g3 g4 g9 where
    hic: "handleItemCollection c ct (last (segments s0)) (?g2 s1) = Some (a, g3)"
    and hpw: "handlePortalWarp c ct g3 = Some g4"
    and g9: "g9 = emit (Ev_move d (Suc (moveCount g4)) (starMovesRemaining (tickStarPower a g4)))
            (startMoveAnimation (segments s0) (segs g4)
               ((tickStarPower a g4)\<lparr>moveCount := moveCount g4 + 1,
                                      totalMoveCount := totalMoveCount g4 + 1\<rparr>))"
    and cp: "checkPostMoveState g9 = Some g'"
    by (rule resolve_move_stages)
  from hic_events [OF hic] obtain e1 where
    e1: "eventQueue g3 = eventQueue g @ e1" "Ev_power_end \<notin> set e1"
        "list_ex is_power_start e1 \<longleftrightarrow> ct = STAR_ITEM"
    by (auto simp: push_frame)
  from hpw_events [OF hpw] obtain e2 where
    e2: "eventQueue g4 = eventQueue g3 @ e2" "Ev_power_end \<notin> set e2" "\<not> list_ex is_power_start e2"
    by auto
  have s4: "starMovesRemaining g4 = (if ct = STAR_ITEM then STAR_POWER_MOVES else starMovesRemaining g)"
    using hpw_frame [OF hpw] hic_star [OF hic] by (simp add: push_frame)
  have a: "a = (ct = STAR_ITEM)" using hic by (rule hic_flag)
  let ?tk = "if starMovesRemaining g4 = 1 \<and> \<not> a then [Ev_power_end] else []"
  let ?mv = "Ev_move d (Suc (moveCount g4)) (starMovesRemaining (tickStarPower a g4))"
  have q9: "eventQueue g9 = eventQueue g4 @ ?tk @ [?mv]"
    by (simp add: g9 emit_def startMoveAnimation_def tick_events)
  from cpms_events [OF cp] obtain e3 where
    e3: "eventQueue g' = eventQueue g9 @ e3" "Ev_power_end \<notin> set e3" "\<not> list_ex is_power_start e3"
    by auto
  let ?evs = "e1 @ e2 @ ?tk @ [?mv] @ e3"
  have "eventQueue g' = eventQueue g @ ?evs" using e1 e2 q9 e3 by simp
  moreover have "count_power_end ?evs = (if starMovesRemaining g = 1 \<and> ct \<noteq> STAR_ITEM then 1 else 0)"
    using e1 e2 e3 s4 a
    by (simp add: count_power_end_none) (simp add: count_power_end_def STAR_POWER_MOVES_def)
  moreover have "list_ex is_power_start ?evs \<longleftrightarrow> ct = STAR_ITEM"
    using e1 e2 e3 by (simp add: is_power_start_def)
  ultimately show ?thesis by blast
qed

lemma tryMove_events:
  assumes A: "tryMove d t g = Some (True, g')"
  shows "\<exists>evs. eventQueue g' = eventQueue g @ evs \<and>
           count_power_end evs
             = (if starMovesRemaining g = 1 \<and> target_tile g d \<noteq> STAR_ITEM then 1 else 0) \<and>
           (list_ex is_power_start evs \<longleftrightarrow> target_tile g d = STAR_ITEM)"
proof -
  from A obtain s0 dv h rest where
    sn: "snake g = Some s0" and D: "DIRECTIONS d = Some (Vec dv)" and sg: "segments s0 = h # rest"
    and R: "resolve_move d t (fst h + fst dv, snd h + snd dv)
              (getTile g (fst h + fst dv) (snd h + snd dv)) s0 g = Some (True, g')"
    by (rule tryMove_accepted)
  have mt: "move_target g d = (fst h + fst dv, snd h + snd dv)"
    using sn sg D by (rule move_target_eq)
  have tt: "target_tile g d = getTile g (fst h + fst dv) (snd h + snd dv)"
    by (simp add: target_tile_def mt)
  show ?thesis using resolve_move_events [OF R] by (simp add: tt)
qed

lemma tryMove_state:
  assumes A: "tryMove d t g = Some (True, g')"
  shows "state g' = PLAYING \<longleftrightarrow> getTile g' (fst (hd (segs g'))) (snd (hd (segs g'))) \<noteq> EXIT"
proof -
  from A obtain s0 dv h rest where
    st: "state g = PLAYING"
    and R: "resolve_move d t (fst h + fst dv, snd h + snd dv)
              (getTile g (fst h + fst dv) (snd h + snd dv)) s0 g = Some (True, g')"
    by (rule tryMove_accepted)
  from R obtain s1 a g3 g4 g9 where
    hic: "handleItemCollection (fst h + fst dv, snd h + snd dv)
            (getTile g (fst h + fst dv) (snd h + snd dv)) (last (segments s0))
            ((pushHistoryDelta ((move_delta g s0 d t (fst h + fst dv, snd h + snd dv)
                (getTile g (fst h + fst dv) (snd h + snd dv)))
                \<lparr>growth := 0, consumedItem := None, portalJump := None\<rparr>) g)\<lparr>snake := Some s1\<rparr>)
            = Some (a, g3)"
    and hpw: "handlePortalWarp (fst h + fst dv, snd h + snd dv)
            (getTile g (fst h + fst dv) (snd h + snd dv)) g3 = Some g4"
    and sn4: "snake g4 \<noteq> None"
    and g9: "g9 = emit (Ev_move d (Suc (moveCount g4)) (starMovesRemaining (tickStarPower a g4)))
            (startMoveAnimation (segments s0) (segs g4)
               ((tickStarPower a g4)\<lparr>moveCount := moveCount g4 + 1,
                                      totalMoveCount := totalMoveCount g4 + 1\<rparr>))"
    and cp: "checkPostMoveState g9 = Some g'"
    by (rule resolve_move_stages)
  have st9: "state g9 = PLAYING"
    using hic_frame [OF hic] hpw_frame [OF hpw] st
    by (simp add: g9 emit_def startMoveAnimation_def tick_frame push_frame)
  from cp obtain s9 where sn9: "snake g9 = Some s9"
    by (auto simp: checkPostMoveState_def split: option.splits)
  from cp sn9 obtain h9 r9 where sg9: "segments s9 = h9 # r9"
    by (cases "segments s9") (auto simp: checkPostMoveState_def getHead_def)
  have "state g' = PLAYING \<longleftrightarrow> getTile g9 (fst h9) (snd h9) \<noteq> EXIT"
    using cp st9 sn9 sg9 by (rule cpms_state)
  moreover have "getTile g' = getTile g9" "segs g' = segs g9"
    using cpms_frame [OF cp] by (auto simp: getTile_def segs_def fun_eq_iff)
  ultimately show ?thesis using sn9 sg9 by (simp add: segs_def)
qed


subsection \<open>The board edge\<close>

text \<open>
  C10. \<open>getTile\<close> answers Wall for every coordinate outside the 20 by 15 board and
  whenever no level is loaded. A move whose candidate head is off the board, with the
  other gates of \<open>tryMove\<close> open, is rejected as a blocked move tagged \<open>wall\<close>, and the
  snake stays where it was.
\<close>

theorem offboard_is_wall:
  "(currentLevel g = None \<or> x < 0 \<or> y < 0 \<or> x \<ge> 20 \<or> y \<ge> 15 \<longrightarrow> getTile g x y = WALL) \<and>
   (state g = PLAYING \<and> snake g = Some s \<and> segments s = h # rest \<and> \<not> animation_gate g \<and>
    DIRECTIONS d = Some (Vec dv) \<and> c = (fst h + fst dv, snd h + snd dv) \<and>
    (fst c < 0 \<or> snd c < 0 \<or> fst c \<ge> 20 \<or> snd c \<ge> 15) \<longrightarrow>
      tryMove d t g = Some (False, setBlockedFeedback (Cell c) ''wall'' g) \<and>
      eventQueue (setBlockedFeedback (Cell c) ''wall'' g) = eventQueue g @ [Ev_blocked ''wall'' (Cell c)] \<and>
      snake (setBlockedFeedback (Cell c) ''wall'' g) = snake g)"
proof -
  have w: "getTile g x y = WALL"
    if "currentLevel g = None \<or> x < 0 \<or> y < 0 \<or> x \<ge> 20 \<or> y \<ge> 15" for x y
    using that by (auto simp: getTile_def isInside_simps split: option.splits)
  have P1: "currentLevel g = None \<or> x < 0 \<or> y < 0 \<or> x \<ge> 20 \<or> y \<ge> 15 \<longrightarrow> getTile g x y = WALL"
    using w by (rule impI)
  have m: "tryMove d t g = Some (False, setBlockedFeedback (Cell c) ''wall'' g)"
    if a: "state g = PLAYING \<and> snake g = Some s \<and> segments s = h # rest \<and> \<not> animation_gate g \<and>
      DIRECTIONS d = Some (Vec dv) \<and> c = (fst h + fst dv, snd h + snd dv) \<and>
      (fst c < 0 \<or> snd c < 0 \<or> fst c \<ge> 20 \<or> snd c \<ge> 15)"
  proof -
    have t: "getTile g (fst h + fst dv) (snd h + snd dv) = WALL" using a w by auto
    then have "\<not> canEnterTileType g (getTile g (fst h + fst dv) (snd h + snd dv))"
      by (simp add: canEnterTileType_def)
    with a t show ?thesis using tryMove_blocked [of g s h rest d dv t] by simp
  qed
  have P2: "state g = PLAYING \<and> snake g = Some s \<and> segments s = h # rest \<and> \<not> animation_gate g \<and>
    DIRECTIONS d = Some (Vec dv) \<and> c = (fst h + fst dv, snd h + snd dv) \<and>
    (fst c < 0 \<or> snd c < 0 \<or> fst c \<ge> 20 \<or> snd c \<ge> 15) \<longrightarrow>
      tryMove d t g = Some (False, setBlockedFeedback (Cell c) ''wall'' g) \<and>
      eventQueue (setBlockedFeedback (Cell c) ''wall'' g) = eventQueue g @ [Ev_blocked ''wall'' (Cell c)] \<and>
      snake (setBlockedFeedback (Cell c) ''wall'' g) = snake g"
  proof (rule impI)
    assume a: "state g = PLAYING \<and> snake g = Some s \<and> segments s = h # rest \<and> \<not> animation_gate g \<and>
      DIRECTIONS d = Some (Vec dv) \<and> c = (fst h + fst dv, snd h + snd dv) \<and>
      (fst c < 0 \<or> snd c < 0 \<or> fst c \<ge> 20 \<or> snd c \<ge> 15)"
    show "tryMove d t g = Some (False, setBlockedFeedback (Cell c) ''wall'' g) \<and>
      eventQueue (setBlockedFeedback (Cell c) ''wall'' g) = eventQueue g @ [Ev_blocked ''wall'' (Cell c)] \<and>
      snake (setBlockedFeedback (Cell c) ''wall'' g) = snake g"
      using m [OF a] by (simp add: blocked_frame)
  qed
  show ?thesis by (intro conjI P1 P2)
qed

theorem offboard_is_wall_witness:
  "getTile demo_game (-1) 1 = WALL \<and>
   tryMove ''left'' 0 demo_game = Some (False, setBlockedFeedback (Cell (-1, 1)) ''wall'' demo_game) \<and>
   eventQueue (setBlockedFeedback (Cell (-1, 1)) ''wall'' demo_game)
     = eventQueue demo_game @ [Ev_blocked ''wall'' (Cell (-1, 1))] \<and>
   snake (setBlockedFeedback (Cell (-1, 1)) ''wall'' demo_game) = snake demo_game"
proof -
  let ?s = "\<lparr>segments = [(0, 1)], direction = ''right''\<rparr>"
  note a = offboard_is_wall [of demo_game "-1" 1 ?s "(0, 1)" "[]" "''left''" "(-1, 0)" "(-1, 1)" 0]
  have h1: "currentLevel demo_game = None \<or> (-1::int) < 0 \<or> (1::int) < 0 \<or> (-1::int) \<ge> 20 \<or> (1::int) \<ge> 15"
    by simp
  have h2: "state demo_game = PLAYING \<and> snake demo_game = Some ?s \<and> segments ?s = (0, 1) # [] \<and>
      \<not> animation_gate demo_game \<and> DIRECTIONS ''left'' = Some (Vec (-1, 0)) \<and>
      (-1, 1) = (fst (0::int, 1::int) + fst (-1::int, 0::int), snd (0::int, 1::int) + snd (-1::int, 0::int)) \<and>
      (fst (-1::int, 1::int) < 0 \<or> snd (-1::int, 1::int) < 0 \<or> fst (-1::int, 1::int) \<ge> 20
        \<or> snd (-1::int, 1::int) \<ge> 15)"
    by (simp add: demo_game_basics DIRECTIONS_simps)
  note a1 = a [THEN conjunct1, THEN mp, OF h1]
  note a2 = a [THEN conjunct2, THEN mp, OF h2]
  show ?thesis using a1 a2 by simp
qed

subsection \<open>Item collection\<close>

lemma tile_at_set_tile:
  assumes "wf_grid ts" and "isInside x y"
  shows "tile_at (set_tile x y t ts) x y = t"
proof -
  from assms have y: "nat y < length ts" by (auto simp: wf_grid_def isInside_simps GRID_ROWS_def)
  with assms have "int (length (ts ! nat y)) = GRID_COLS"
    by (auto simp: wf_grid_def list_all_length)
  with assms have "nat x < length (ts ! nat y)" by (auto simp: isInside_simps GRID_COLS_def)
  with y show ?thesis by (simp add: tile_at_def set_tile_def)
qed

lemma moved_segments_length:
  "segments s0 \<noteq> [] \<Longrightarrow>
   length (moved_segments g s0 c ct) = length (segments s0) + item_growth ct"
  by (simp add: moved_segments_def)

text \<open>
  C5. On an accepted move onto an Item tile the snake has one segment more, the tile reads
  Empty afterwards and the per-level and total item counters are each one higher; onto a
  BigItem tile the snake has two segments more and the counters are each one higher; onto
  a StarItem tile the snake keeps its length, the tile reads Empty, the item counters stay
  and the star counter is \<open>STAR_POWER_MOVES\<close>, which is 8. The level grid is of the shape
  every parsed level has.
\<close>

theorem item_collection_growth:
  assumes acc: "tryMove d t g = Some (True, g')" and wf: "wf_grid (cur_tiles g)"
  shows "(target_tile g d = ITEM \<longrightarrow>
            length (segs g') = length (segs g) + 1 \<and>
            getTile g' (fst (move_target g d)) (snd (move_target g d)) = EMPTY \<and>
            levelCollectedItems g' = levelCollectedItems g + 1 \<and>
            totalItemsCollected g' = totalItemsCollected g + 1) \<and>
         (target_tile g d = BIG_ITEM \<longrightarrow>
            length (segs g') = length (segs g) + 2 \<and>
            getTile g' (fst (move_target g d)) (snd (move_target g d)) = EMPTY \<and>
            levelCollectedItems g' = levelCollectedItems g + 1 \<and>
            totalItemsCollected g' = totalItemsCollected g + 1) \<and>
         (target_tile g d = STAR_ITEM \<longrightarrow>
            length (segs g') = length (segs g) \<and>
            getTile g' (fst (move_target g d)) (snd (move_target g d)) = EMPTY \<and>
            levelCollectedItems g' = levelCollectedItems g \<and>
            totalItemsCollected g' = totalItemsCollected g \<and>
            starMovesRemaining g' = STAR_POWER_MOVES \<and> STAR_POWER_MOVES = 8)"
proof -
  let ?c = "move_target g d" and ?ct = "target_tile g d"
  from acc obtain s0 where
    sn: "snake g = Some s0" and ne: "segments s0 \<noteq> []"
    and sn': "snake g' = Some (s0\<lparr>segments := moved_segments g s0 ?c ?ct, direction := d\<rparr>)"
    and star: "starMovesRemaining g' =
       (if ?ct = STAR_ITEM then STAR_POWER_MOVES
        else if starMovesRemaining g > 0 then starMovesRemaining g - 1
        else starMovesRemaining g)"
    and lv: "if is_pickup ?ct
     then \<exists>l. currentLevel g = Some l \<and>
              currentLevel g' = Some (l\<lparr>tiles := set_tile (fst ?c) (snd ?c) EMPTY (tiles l)\<rparr>)
     else currentLevel g' = currentLevel g"
    and lc: "levelCollectedItems g' = levelCollectedItems g
        + (if ?ct = ITEM \<or> ?ct = BIG_ITEM then 1 else 0)"
    and tc: "totalItemsCollected g' = totalItemsCollected g
        + (if ?ct = ITEM \<or> ?ct = BIG_ITEM then 1 else 0)"
    by (rule tryMove_result)
  have len: "length (segs g') = length (segs g) + item_growth ?ct"
    using sn sn' ne by (simp add: segs_def moved_segments_length)
  have tile: "getTile g' (fst ?c) (snd ?c) = EMPTY" if p: "is_pickup ?ct"
  proof -
    from p lv obtain l where l: "currentLevel g = Some l"
      and l': "currentLevel g' = Some (l\<lparr>tiles := set_tile (fst ?c) (snd ?c) EMPTY (tiles l)\<rparr>)"
      by auto
    from p have "getTile g (fst ?c) (snd ?c) \<noteq> WALL" by (auto simp: target_tile_def is_pickup_def)
    then have ins: "isInside (fst ?c) (snd ?c)" using getTile_pickup_level by blast
    have "wf_grid (tiles l)" using wf l by (simp add: cur_tiles_def)
    then show ?thesis using ins l' by (simp add: getTile_def tile_at_set_tile)
  qed
  show ?thesis
    using len tile lc tc star
    by (simp add: item_growth_def is_pickup_def STAR_POWER_MOVES_def)
qed

lemma wf_demo_tiles: "wf_grid demo_tiles"
  by code_simp

lemma cur_tiles_demo: "cur_tiles (demo_at ps) = demo_tiles" "cur_tiles demo_game = demo_tiles"
  by (simp_all add: cur_tiles_def demo_at_basics demo_game_basics demo_level_def)

lemma canEnter_demo:
  "canEnterTileType (demo_at ps) t \<longleftrightarrow> t \<noteq> WALL \<and> t \<noteq> OBSTACLE"
  "canEnterTileType demo_game t \<longleftrightarrow> t \<noteq> WALL \<and> t \<noteq> OBSTACLE"
  by (simp_all add: canEnterTileType_def isStarActive_def demo_at_basics demo_game_basics)

lemma demo_accepts:
  assumes "DIRECTIONS d = Some (Vec dv)"
    and "isInside (fst h + fst dv) (snd h + snd dv)"
    and "tile_at demo_tiles (fst h + fst dv) (snd h + snd dv) \<noteq> WALL"
    and "tile_at demo_tiles (fst h + fst dv) (snd h + snd dv) \<noteq> OBSTACLE"
  shows "\<exists>g'. tryMove d t (demo_at (h # rest)) = Some (True, g')"
  using assms
  by (intro tryMove_accepts [where ?s0.0 = "\<lparr>segments = h # rest, direction = ''right''\<rparr>"
        and h = h and rest = rest and dv = dv])
     (simp_all add: demo_at_basics getTile_demo canEnter_demo)

lemma demo_target:
  assumes "DIRECTIONS d = Some (Vec dv)"
  shows "move_target (demo_at (h # rest)) d = (fst h + fst dv, snd h + snd dv)"
  using assms by (simp add: move_target_eq [where h = h and rest = rest] demo_at_basics)

lemma demo_game_at: "demo_game = demo_at [(0, 1)]"
  by (simp add: demo_at_def demo_game_def)

theorem item_collection_growth_witness:
  "(\<exists>g'. tryMove ''right'' 0 (demo_at [(2, 1)]) = Some (True, g') \<and>
         length (segs g') = 2 \<and> getTile g' 3 1 = EMPTY \<and> levelCollectedItems g' = 1) \<and>
   (\<exists>g'. tryMove ''down'' 0 (demo_at [(0, 1)]) = Some (True, g') \<and>
         length (segs g') = 3 \<and> getTile g' 0 2 = EMPTY \<and> totalItemsCollected g' = 1) \<and>
   (\<exists>g'. tryMove ''right'' 0 (demo_at [(3, 1)]) = Some (True, g') \<and>
         length (segs g') = 1 \<and> getTile g' 4 1 = EMPTY \<and> starMovesRemaining g' = 8)"
proof -
  have base: "length (segs (demo_at [p])) = 1" "levelCollectedItems (demo_at [p]) = 0"
    "totalItemsCollected (demo_at [p]) = 0" for p
    by (simp_all add: segs_def demo_at_basics) (simp_all add: demo_at_def demo_game_def)
  have wf: "wf_grid (cur_tiles (demo_at ps))" for ps
    by (simp add: cur_tiles_demo wf_demo_tiles)
  obtain g1 where m1: "tryMove ''right'' 0 (demo_at [(2, 1)]) = Some (True, g1)"
    using demo_accepts [of "''right''" "(1, 0)" "(2, 1)" 0 "[]"]
    by (auto simp: DIRECTIONS_simps isInside_simps demo_cells)
  have t1: "move_target (demo_at [(2, 1)]) ''right'' = (3, 1)"
    by (simp add: demo_target [of _ "(1, 0)"] DIRECTIONS_simps)
  have tt1: "target_tile (demo_at [(2, 1)]) ''right'' = ITEM"
    by (simp add: target_tile_def t1 getTile_demo isInside_simps demo_cells)
  note r1 = item_collection_growth [OF m1 wf, THEN conjunct1, THEN mp, OF tt1]
  obtain g2 where m2: "tryMove ''down'' 0 (demo_at [(0, 1)]) = Some (True, g2)"
    using demo_accepts [of "''down''" "(0, 1)" "(0, 1)" 0 "[]"]
    by (auto simp: DIRECTIONS_simps isInside_simps demo_cells)
  have t2: "move_target (demo_at [(0, 1)]) ''down'' = (0, 2)"
    by (simp add: demo_target [of _ "(0, 1)"] DIRECTIONS_simps)
  have tt2: "target_tile (demo_at [(0, 1)]) ''down'' = BIG_ITEM"
    by (simp add: target_tile_def t2 getTile_demo isInside_simps demo_cells)
  note r2 = item_collection_growth [OF m2 wf, THEN conjunct2, THEN conjunct1, THEN mp, OF tt2]
  obtain g3 where m3: "tryMove ''right'' 0 (demo_at [(3, 1)]) = Some (True, g3)"
    using demo_accepts [of "''right''" "(1, 0)" "(3, 1)" 0 "[]"]
    by (auto simp: DIRECTIONS_simps isInside_simps demo_cells)
  have t3: "move_target (demo_at [(3, 1)]) ''right'' = (4, 1)"
    by (simp add: demo_target [of _ "(1, 0)"] DIRECTIONS_simps)
  have tt3: "target_tile (demo_at [(3, 1)]) ''right'' = STAR_ITEM"
    by (simp add: target_tile_def t3 getTile_demo isInside_simps demo_cells)
  note r3 = item_collection_growth [OF m3 wf, THEN conjunct2, THEN conjunct2, THEN mp, OF tt3]
  have "tryMove ''right'' 0 (demo_at [(2, 1)]) = Some (True, g1) \<and>
         length (segs g1) = 2 \<and> getTile g1 3 1 = EMPTY \<and> levelCollectedItems g1 = 1"
    using m1 r1 by (simp add: t1 base)
  moreover have "tryMove ''down'' 0 (demo_at [(0, 1)]) = Some (True, g2) \<and>
         length (segs g2) = 3 \<and> getTile g2 0 2 = EMPTY \<and> totalItemsCollected g2 = 1"
    using m2 r2 by (simp add: t2 base)
  moreover have "tryMove ''right'' 0 (demo_at [(3, 1)]) = Some (True, g3) \<and>
         length (segs g3) = 1 \<and> getTile g3 4 1 = EMPTY \<and> starMovesRemaining g3 = 8"
    using m3 r3 by (simp add: t3 base)
  ultimately show ?thesis by blast
qed


subsection \<open>Portal warp\<close>

lemma moved_segments_portal:
  assumes "ct = PORTAL_A \<or> ct = PORTAL_B"
  shows "moved_segments g s0 c ct =
           (case warp_target g c ct of None \<Rightarrow> c | Some dest \<Rightarrow> dest) # butlast (segments s0)"
  using assms by (auto simp: moved_segments_def item_growth_def)

lemma loadLevel_fields:
  assumes "loadLevel i gp = Some gl"
  shows "\<exists>l s. currentLevel gl = Some l \<and> l \<in> set (levels gp) \<and>
           portalLinks gl = buildPortalLinks (Some l) \<and>
           new_Snake (spawn l) (snakeLength l) (tiles l) = Some s \<and> snake gl = Some s \<and>
           history gl = [] \<and> moveCount gl = 0 \<and> starMovesRemaining gl = 0 \<and>
           levelCollectedItems gl = 0 \<and> totalItemsCollected gl = totalItemsCollected gp \<and>
           state gl = state gp \<and> levels gl = levels gp \<and> moveAnimation gl = None"
  using assms
  by (auto simp: loadLevel_def Let_def clamp_def split: if_splits option.splits)

lemma links_lookup:
  "map_of (rev (buildPortalLinks (Some l))) p = Some q \<longleftrightarrow>
     (first_tile (tiles l) PORTAL_A = Some p \<and> first_tile (tiles l) PORTAL_B = Some q) \<or>
     (first_tile (tiles l) PORTAL_B = Some p \<and> first_tile (tiles l) PORTAL_A = Some q)"
  by (auto simp: buildPortalLinks_def split: option.splits)

lemma demo_load: "loadLevel 0 demo_title = Some (demo_game\<lparr>state := TITLE\<rparr>)"
  by code_simp

lemma demo_links:
  "getPortalDestination (demo_at ps) p = (if p = (10, 13) then Some (7, 1)
                                          else if p = (7, 1) then Some (10, 13) else None)"
  by (simp add: getPortalDestination_def demo_at_def demo_game_def)

subsection \<open>Undo\<close>

lemma map_nth_Cons_upt:
  "k \<le> length xs \<Longrightarrow> map (\<lambda>i. (x # xs) ! i) [1..<Suc k] = take k xs"
proof (induction k)
  case 0
  then show ?case by simp
next
  case (Suc k)
  then show ?case by (simp add: take_Suc_conv_app_nth)
qed

lemma set_tile_restore:
  assumes "tile_at ts x y = t"
  shows "set_tile x y t (set_tile x y e ts) = ts"
proof (cases "nat y < length ts")
  case True
  have "(ts ! nat y)[nat x := t] = ts ! nat y"
    using assms [symmetric] by (simp add: tile_at_def)
  then show ?thesis using True by (simp add: set_tile_def)
next
  case False
  then have "length ts \<le> nat y" by simp
  then show ?thesis by (simp add: set_tile_def list_update_beyond)
qed

lemma undo_result:
  assumes st: "state g = PLAYING" and hs: "history g = hs @ [dl]" and sn: "snake g = Some s"
    and lv: "consumedItem dl \<noteq> None \<longrightarrow> currentLevel g \<noteq> None"
  shows "\<exists>g2. undo g = Some (True, g2) \<and>
    snake g2 = Some (s\<lparr>segments := undo_segments dl (segments s),
                        direction := previousDirection dl\<rparr>) \<and>
    history g2 = hs \<and> moveCount g2 = moveCountBefore dl \<and>
    starMovesRemaining g2 = max 0 (starMovesBefore dl) \<and>
    currentLevel g2 = (case consumedItem dl of None \<Rightarrow> currentLevel g
        | Some (p, t) \<Rightarrow> map_option (\<lambda>l. l\<lparr>tiles := set_tile (fst p) (snd p)
                                             (if t = EMPTY then ITEM else t) (tiles l)\<rparr>) (currentLevel g)) \<and>
    levelCollectedItems g2 = (case consumedItem dl of None \<Rightarrow> levelCollectedItems g
        | Some _ \<Rightarrow> levelItemsBefore dl) \<and>
    totalItemsCollected g2 = (case consumedItem dl of None \<Rightarrow> totalItemsCollected g
        | Some _ \<Rightarrow> totalItemsBefore dl) \<and>
    state g2 = PLAYING \<and> portalLinks g2 = portalLinks g"
proof -
  have ne: "history g \<noteq> []" using hs by simp
  have c: "(case history g of [] \<Rightarrow> a | _ \<Rightarrow> b) = b" for a b :: "(bool \<times> game) option"
    using ne by (cases "history g") simp_all
  show ?thesis
  proof (cases "consumedItem dl")
    case None
    then show ?thesis using st sn
      by (subst undo_def, subst c)
         (simp add: hs Let_def startMoveAnimation_def emit_def undo_segments_def)
  next
    case (Some pt)
    obtain p t where pt: "pt = (p, t)" by (cases pt)
    from Some lv obtain l where l: "currentLevel g = Some l" by auto
    show ?thesis using st sn Some pt l
      by (subst undo_def, subst c)
         (simp add: hs Let_def startMoveAnimation_def emit_def undo_segments_def write_tile_def)
  qed
qed


lemma undo_segments_moved:
  assumes "segments s0 \<noteq> []"
  shows "undo_segments (move_delta g s0 d t c ct) (moved_segments g s0 c ct) = segments s0"
proof -
  let ?n = "length (segments s0)"
  let ?rest = "butlast (segments s0) @ replicate (item_growth ct) (last (segments s0))"
  have n: "?n \<ge> 1" using assms by (cases "segments s0") auto
  have re: "nat (max 1 (int (length (moved_segments g s0 c ct))
              - max 0 (int (growth (move_delta g s0 d t c ct))))) = Suc (?n - 1)"
    using n by (simp add: moved_segments_def move_delta_def)
  have eff: "\<exists>x. (case portalJump (move_delta g s0 d t c ct) of
                 None \<Rightarrow> moved_segments g s0 c ct
               | Some (from, to) \<Rightarrow> (case moved_segments g s0 c ct of [] \<Rightarrow> [from]
                                     | _ # rest \<Rightarrow> from # rest)) = x # ?rest"
    by (auto simp: moved_segments_def move_delta_def split: option.splits)
  then obtain x where x: "(case portalJump (move_delta g s0 d t c ct) of
                 None \<Rightarrow> moved_segments g s0 c ct
               | Some (from, to) \<Rightarrow> (case moved_segments g s0 c ct of [] \<Rightarrow> [from]
                                     | _ # rest \<Rightarrow> from # rest)) = x # ?rest" ..
  have "map (\<lambda>i. (x # ?rest) ! i) [1..<Suc (?n - 1)] = take (?n - 1) ?rest"
    by (rule map_nth_Cons_upt) simp
  also have "\<dots> = butlast (segments s0)" by simp
  finally have "undo_segments (move_delta g s0 d t c ct) (moved_segments g s0 c ct)
                  = butlast (segments s0) @ [tail (move_delta g s0 d t c ct)]"
    unfolding undo_segments_def re x by simp
  then show ?thesis using assms by (simp add: move_delta_def)
qed

text \<open>One undo right after an accepted move that left the game in the Playing state.\<close>

lemma undo_after_move:
  assumes A: "tryMove d t g = Some (True, g1)" and st1: "state g1 = PLAYING"
  shows "\<exists>g2. undo g1 = Some (True, g2) \<and> snake g2 = snake g \<and> currentLevel g2 = currentLevel g \<and>
           moveCount g2 = moveCount g \<and> starMovesRemaining g2 = max 0 (starMovesRemaining g) \<and>
           levelCollectedItems g2 = levelCollectedItems g \<and>
           totalItemsCollected g2 = totalItemsCollected g \<and> state g2 = PLAYING \<and>
           portalLinks g2 = portalLinks g \<and>
           history g2 = (if length (history g) \<ge> HISTORY_LIMIT then tl (history g) else history g)"
proof -
  let ?c = "move_target g d" and ?ct = "target_tile g d"
  from A obtain s0 where
    sn: "snake g = Some s0" and ne: "segments s0 \<noteq> []"
    and sn1: "snake g1 = Some (s0\<lparr>segments := moved_segments g s0 ?c ?ct, direction := d\<rparr>)"
    and h1: "history g1 = (if length (history g) \<ge> HISTORY_LIMIT then tl (history g) else history g)
                    @ [move_delta g s0 d t ?c ?ct]"
    and lv: "if is_pickup ?ct
     then \<exists>l. currentLevel g = Some l \<and>
              currentLevel g1 = Some (l\<lparr>tiles := set_tile (fst ?c) (snd ?c) EMPTY (tiles l)\<rparr>)
     else currentLevel g1 = currentLevel g"
    and lc: "levelCollectedItems g1 = levelCollectedItems g
        + (if ?ct = ITEM \<or> ?ct = BIG_ITEM then 1 else 0)"
    and tc: "totalItemsCollected g1 = totalItemsCollected g
        + (if ?ct = ITEM \<or> ?ct = BIG_ITEM then 1 else 0)"
    and pl: "portalLinks g1 = portalLinks g"
    by (rule tryMove_result)
  let ?dl = "move_delta g s0 d t ?c ?ct"
  have ci: "consumedItem ?dl \<noteq> None \<longrightarrow> currentLevel g1 \<noteq> None"
    using lv by (auto simp: move_delta_def)
  from undo_result [OF st1 h1 sn1 ci] obtain g2 where
    u: "undo g1 = Some (True, g2)"
    and sn2: "snake g2 = Some ((s0\<lparr>segments := moved_segments g s0 ?c ?ct, direction := d\<rparr>)
                \<lparr>segments := undo_segments ?dl (segments (s0\<lparr>segments := moved_segments g s0 ?c ?ct,
                                                             direction := d\<rparr>)),
                  direction := previousDirection ?dl\<rparr>)"
    and h2: "history g2 = (if length (history g) \<ge> HISTORY_LIMIT then tl (history g) else history g)"
    and mc: "moveCount g2 = moveCountBefore ?dl"
    and sm: "starMovesRemaining g2 = max 0 (starMovesBefore ?dl)"
    and cl: "currentLevel g2 = (case consumedItem ?dl of None \<Rightarrow> currentLevel g1
        | Some (p, t) \<Rightarrow> map_option (\<lambda>l. l\<lparr>tiles := set_tile (fst p) (snd p)
                                             (if t = EMPTY then ITEM else t) (tiles l)\<rparr>) (currentLevel g1))"
    and l2: "levelCollectedItems g2 = (case consumedItem ?dl of None \<Rightarrow> levelCollectedItems g1
        | Some _ \<Rightarrow> levelItemsBefore ?dl)"
    and t2: "totalItemsCollected g2 = (case consumedItem ?dl of None \<Rightarrow> totalItemsCollected g1
        | Some _ \<Rightarrow> totalItemsBefore ?dl)"
    and st2: "state g2 = PLAYING" and pl2: "portalLinks g2 = portalLinks g1"
    by blast
  have "snake g2 = snake g"
    using sn2 sn undo_segments_moved [OF ne] by (simp add: move_delta_def)
  moreover have "currentLevel g2 = currentLevel g"
  proof (cases "is_pickup ?ct")
    case True
    with lv obtain l where l: "currentLevel g = Some l"
      and l1: "currentLevel g1 = Some (l\<lparr>tiles := set_tile (fst ?c) (snd ?c) EMPTY (tiles l)\<rparr>)"
      by auto
    from True have "getTile g (fst ?c) (snd ?c) \<noteq> WALL" by (auto simp: target_tile_def is_pickup_def)
    then have "isInside (fst ?c) (snd ?c)" using getTile_pickup_level by blast
    then have "tile_at (tiles l) (fst ?c) (snd ?c) = ?ct"
      using l by (simp add: target_tile_def getTile_def)
    then have "set_tile (fst ?c) (snd ?c) ?ct (set_tile (fst ?c) (snd ?c) EMPTY (tiles l)) = tiles l"
      by (rule set_tile_restore)
    then show ?thesis using True cl l l1 by (auto simp: move_delta_def is_pickup_def)
  next
    case False
    then show ?thesis using cl lv by (simp add: move_delta_def)
  qed
  moreover have "levelCollectedItems g2 = levelCollectedItems g"
    using l2 lc by (auto simp: move_delta_def is_pickup_def)
  moreover have "totalItemsCollected g2 = totalItemsCollected g"
    using t2 tc by (auto simp: move_delta_def is_pickup_def)
  moreover have "moveCount g2 = moveCount g" using mc by (simp add: move_delta_def)
  moreover have "starMovesRemaining g2 = max 0 (starMovesRemaining g)"
    using sm by (simp add: move_delta_def)
  ultimately show ?thesis using u h2 st2 pl pl2 by simp
qed


lemma update_frame:
  "state (update n g) = state g" "snake (update n g) = snake g"
  "currentLevel (update n g) = currentLevel g" "moveCount (update n g) = moveCount g"
  "starMovesRemaining (update n g) = starMovesRemaining g"
  "levelCollectedItems (update n g) = levelCollectedItems g"
  "totalItemsCollected (update n g) = totalItemsCollected g"
  "history (update n g) = history g" "eventQueue (update n g) = eventQueue g"
  "portalLinks (update n g) = portalLinks g" "reduceMotion (update n g) = reduceMotion g"
  by (simp_all add: update_def Let_def split: option.splits)

lemma undos_Suc_right:
  "undos (Suc n) g = Option.bind (undos n g) (\<lambda>g'. map_option snd (undo g'))"
proof (induction n arbitrary: g)
  case 0
  then show ?case by (auto split: option.splits)
next
  case (Suc n)
  show ?case
  proof (cases "undo g")
    case None
    then show ?thesis by simp
  next
    case (Some r)
    obtain b g1 where r: "r = (b, g1)" by (cases r)
    have "undos (Suc (Suc n)) g = undos (Suc n) g1" using Some r by simp
    also have "\<dots> = Option.bind (undos n g1) (\<lambda>g'. map_option snd (undo g'))" by (rule Suc.IH)
    also have "undos n g1 = undos (Suc n) g" using Some r by simp
    finally show ?thesis .
  qed
qed

text \<open>
  \<open>undo\<close> reads the state, the snake, the level, the item counters and the newest
  history entry only.
\<close>

lemma undo_cong:
  assumes c: "core g = core h" and hg: "history g = hs @ [dl]" and hh: "history h = hs' @ [dl]"
    and ug: "undo g = Some (True, g2)" and st: "state g = PLAYING"
  shows "\<exists>h2. undo h = Some (True, h2) \<and> core h2 = core g2 \<and> history h2 = hs' \<and> history g2 = hs"
proof -
  have ne: "history g \<noteq> []" using hg by simp
  have cs: "(case history g of [] \<Rightarrow> a | _ \<Rightarrow> b) = b" for a b :: "(bool \<times> game) option"
    using ne by (cases "history g") simp_all
  have "snake g \<noteq> None"
  proof
    assume "snake g = None"
    then have "undo g = None" using st by (subst undo_def, subst cs) (simp add: Let_def)
    with ug show False by simp
  qed
  then obtain s where sn: "snake g = Some s" by auto
  have lvg: "consumedItem dl \<noteq> None \<longrightarrow> currentLevel g \<noteq> None"
  proof (rule impI, rule notI)
    assume a: "consumedItem dl \<noteq> None" and n: "currentLevel g = None"
    then obtain p t where "consumedItem dl = Some (p, t)" by (cases "consumedItem dl") auto
    then have "undo g = None"
      using st sn n by (subst undo_def, subst cs) (simp add: hg Let_def write_tile_def)
    with ug show False by simp
  qed
  have sth: "state h = PLAYING" and snh: "snake h = Some s"
    and lvh: "consumedItem dl \<noteq> None \<longrightarrow> currentLevel h \<noteq> None"
    using c st sn lvg by (auto simp: core_def)
  from undo_result [OF st hg sn lvg] ug obtain
    "snake g2 = Some (s\<lparr>segments := undo_segments dl (segments s),
                        direction := previousDirection dl\<rparr>)"
    "history g2 = hs" "moveCount g2 = moveCountBefore dl"
    "starMovesRemaining g2 = max 0 (starMovesBefore dl)"
    "currentLevel g2 = (case consumedItem dl of None \<Rightarrow> currentLevel g
        | Some (p, t) \<Rightarrow> map_option (\<lambda>l. l\<lparr>tiles := set_tile (fst p) (snd p)
                                             (if t = EMPTY then ITEM else t) (tiles l)\<rparr>) (currentLevel g))"
    "levelCollectedItems g2 = (case consumedItem dl of None \<Rightarrow> levelCollectedItems g
        | Some _ \<Rightarrow> levelItemsBefore dl)"
    "totalItemsCollected g2 = (case consumedItem dl of None \<Rightarrow> totalItemsCollected g
        | Some _ \<Rightarrow> totalItemsBefore dl)"
    "state g2 = PLAYING"
    by auto
  moreover from undo_result [OF sth hh snh lvh] obtain h2 where
    "undo h = Some (True, h2)"
    "snake h2 = Some (s\<lparr>segments := undo_segments dl (segments s),
                        direction := previousDirection dl\<rparr>)"
    "history h2 = hs'" "moveCount h2 = moveCountBefore dl"
    "starMovesRemaining h2 = max 0 (starMovesBefore dl)"
    "currentLevel h2 = (case consumedItem dl of None \<Rightarrow> currentLevel h
        | Some (p, t) \<Rightarrow> map_option (\<lambda>l. l\<lparr>tiles := set_tile (fst p) (snd p)
                                             (if t = EMPTY then ITEM else t) (tiles l)\<rparr>) (currentLevel h))"
    "levelCollectedItems h2 = (case consumedItem dl of None \<Rightarrow> levelCollectedItems h
        | Some _ \<Rightarrow> levelItemsBefore dl)"
    "totalItemsCollected h2 = (case consumedItem dl of None \<Rightarrow> totalItemsCollected h
        | Some _ \<Rightarrow> totalItemsBefore dl)"
    "state h2 = PLAYING"
    by auto
  ultimately show ?thesis using c unfolding core_def by (auto split: option.splits)
qed

lemma tryMove_star_nonneg:
  assumes "tryMove d t g = Some (True, g')" and "0 \<le> starMovesRemaining g"
  shows "0 \<le> starMovesRemaining g'"
  using assms by (elim tryMove_result) (simp add: STAR_POWER_MOVES_def)

lemma tryMove_history_length:
  assumes "tryMove d t g = Some (True, g')" and "length (history g) \<le> HISTORY_LIMIT"
  shows "length (history g') = min (Suc (length (history g))) HISTORY_LIMIT"
  using assms by (elim tryMove_result) (auto simp: HISTORY_LIMIT_def)

text \<open>
  Undoing a run of at most \<open>HISTORY_LIMIT\<close> accepted moves brings back the core of the
  game the run started from; the history is the starting history less the entries that
  the cap has dropped from its front.
\<close>

lemma undos_play_moves:
  assumes "play_moves ms g = Some g1" and "length ms \<le> HISTORY_LIMIT"
    and "0 \<le> starMovesRemaining g" and "length (history g) \<le> HISTORY_LIMIT"
  shows "\<exists>g2. undos (length ms) g1 = Some g2 \<and> core g2 = core g \<and>
           history g2 = drop (length (history g) + length ms - HISTORY_LIMIT) (history g)"
  using assms
proof (induction ms arbitrary: g)
  case Nil
  then show ?case by simp
next
  case (Cons m ms)
  obtain now d t where m: "m = (now, d, t)" by (cases m)
  let ?u = "update now g"
  from Cons.prems(1) m obtain ga where
    mv: "tryMove d t ?u = Some (True, ga)" and sta: "state ga = PLAYING"
    and run: "play_moves ms ga = Some g1"
    by (auto split: option.splits bool.splits if_splits)
  have star_u: "0 \<le> starMovesRemaining ?u" using Cons.prems(3) by (simp add: update_frame)
  have len_u: "length (history ?u) \<le> HISTORY_LIMIT" using Cons.prems(4) by (simp add: update_frame)
  have star_a: "0 \<le> starMovesRemaining ga" using mv star_u by (rule tryMove_star_nonneg)
  have len_a: "length (history ga) = min (Suc (length (history g))) HISTORY_LIMIT"
    using tryMove_history_length [OF mv len_u] by (simp add: update_frame)
  from Cons.prems(2) have lms: "length ms \<le> HISTORY_LIMIT" "Suc (length ms) \<le> HISTORY_LIMIT" by simp_all
  from Cons.IH [OF run lms(1) star_a] len_a obtain gb where
    ub: "undos (length ms) g1 = Some gb" and cb: "core gb = core ga"
    and hb: "history gb = drop (length (history ga) + length ms - HISTORY_LIMIT) (history ga)"
    by auto
  from undo_after_move [OF mv sta, unfolded update_frame] obtain gc where
    gc: "undo ga = Some (True, gc) \<and> snake gc = snake g \<and> currentLevel gc = currentLevel g \<and>
           moveCount gc = moveCount g \<and> starMovesRemaining gc = max 0 (starMovesRemaining g) \<and>
           levelCollectedItems gc = levelCollectedItems g \<and>
           totalItemsCollected gc = totalItemsCollected g \<and> state gc = PLAYING \<and>
           portalLinks gc = portalLinks g \<and>
           history gc = (if length (history g) \<ge> HISTORY_LIMIT then tl (history g) else history g)" ..
  have stg: "state g = PLAYING" using mv by (elim tryMove_result) (simp add: update_frame)
  have uc: "undo ga = Some (True, gc)" and cc: "core gc = core g"
    and hc: "history gc = (if length (history g) \<ge> HISTORY_LIMIT then tl (history g) else history g)"
    using gc stg Cons.prems(3) by (simp_all add: core_def)
  from mv obtain dl where
    ha: "history ga = (if length (history g) \<ge> HISTORY_LIMIT then tl (history g) else history g) @ [dl]"
    by (elim tryMove_result) (simp add: update_frame)
  let ?base = "if length (history g) \<ge> HISTORY_LIMIT then tl (history g) else history g"
  let ?x = "length (history ga) + length ms - HISTORY_LIMIT"
  have x: "?x \<le> length ?base" using len_a lms ha by (auto simp: min_def split: if_splits)
  then have hb': "history gb = drop ?x ?base @ [dl]" using hb ha by simp
  from undo_cong [OF cb [symmetric] ha hb' uc sta] obtain gd where
    ud: "undo gb = Some (True, gd)" and cd: "core gd = core gc" and hd: "history gd = drop ?x ?base"
    by auto
  have "undos (length (m # ms)) g1 = Some gd"
    using ub ud by (simp add: undos_Suc_right del: undos.simps)
  moreover have "core gd = core g" using cd cc by simp
  moreover have "history gd = drop (length (history g) + length (m # ms) - HISTORY_LIMIT) (history g)"
  proof (cases "length (history g) \<ge> HISTORY_LIMIT")
    case True
    with Cons.prems(4) have e: "length (history g) = HISTORY_LIMIT" by simp
    then show ?thesis using hd len_a True by (simp add: drop_tl drop_Suc)
  next
    case False
    then show ?thesis using hd len_a by (simp add: min_def)
  qed
  ultimately show ?case by blast
qed


lemma tryMove_anim:
  assumes A: "tryMove d t g = Some (True, g')"
  shows "reduceMotion g' = reduceMotion g \<and>
         (\<exists>a. moveAnimation g' = Some a \<and> startAt a = animationTimeMs g \<and>
              duration a = (if reduceMotion g then 0 else MOVE_ANIMATION_MS))"
proof -
  from A obtain s0 dv h rest where
    R: "resolve_move d t (fst h + fst dv, snd h + snd dv)
              (getTile g (fst h + fst dv) (snd h + snd dv)) s0 g = Some (True, g')"
    by (rule tryMove_accepted)
  from R obtain s1 a g3 g4 g9 where
    hic: "handleItemCollection (fst h + fst dv, snd h + snd dv)
            (getTile g (fst h + fst dv) (snd h + snd dv)) (last (segments s0))
            ((pushHistoryDelta ((move_delta g s0 d t (fst h + fst dv, snd h + snd dv)
                (getTile g (fst h + fst dv) (snd h + snd dv)))
                \<lparr>growth := 0, consumedItem := None, portalJump := None\<rparr>) g)\<lparr>snake := Some s1\<rparr>)
            = Some (a, g3)"
    and hpw: "handlePortalWarp (fst h + fst dv, snd h + snd dv)
            (getTile g (fst h + fst dv) (snd h + snd dv)) g3 = Some g4"
    and g9: "g9 = emit (Ev_move d (Suc (moveCount g4)) (starMovesRemaining (tickStarPower a g4)))
            (startMoveAnimation (segments s0) (segs g4)
               ((tickStarPower a g4)\<lparr>moveCount := moveCount g4 + 1,
                                      totalMoveCount := totalMoveCount g4 + 1\<rparr>))"
    and cp: "checkPostMoveState g9 = Some g'"
    by (rule resolve_move_stages)
  have "reduceMotion g4 = reduceMotion g" "animationTimeMs g4 = animationTimeMs g"
    using hic_frame [OF hic] hpw_frame [OF hpw] by (simp_all add: push_frame)
  then have "reduceMotion g9 = reduceMotion g \<and>
         (\<exists>a. moveAnimation g9 = Some a \<and> startAt a = animationTimeMs g \<and>
              duration a = (if reduceMotion g then 0 else MOVE_ANIMATION_MS))"
    by (simp add: g9 emit_def startMoveAnimation_def tick_frame)
  then show ?thesis using cpms_frame [OF cp] by simp
qed

lemma on_demo_step:
  assumes J: "on_demo g h" and D: "DIRECTIONS d = Some (Vec dv)"
    and ins: "isInside (fst h + fst dv) (snd h + snd dv)"
    and tl: "tile_at demo_tiles (fst h + fst dv) (snd h + snd dv) = EMPTY"
  shows "\<exists>g'. tryMove d t (update now g) = Some (True, g') \<and> state g' = PLAYING \<and>
           on_demo g' (fst h + fst dv, snd h + snd dv) \<and>
           moveCount g' = moveCount g + 1 \<and>
           history g' = (if length (history g) \<ge> HISTORY_LIMIT then tl (history g) else history g)
                          @ [last (history g')]"
proof -
  let ?u = "update now g" and ?c = "(fst h + fst dv, snd h + snd dv)"
  from J obtain s where st: "state g = PLAYING" and lv: "currentLevel g = Some demo_level"
    and rm: "reduceMotion g" and star: "starMovesRemaining g = 0"
    and sn: "snake g = Some s" and sg: "segments s = [h]"
    and an: "\<forall>a. moveAnimation g = Some a \<longrightarrow> duration a = 0"
    by (auto simp: on_demo_def)
  have gate: "\<not> animation_gate ?u"
    using an by (auto simp: animation_gate_def update_def Let_def split: option.splits)
  have gt: "getTile ?u x y = (if isInside x y then tile_at demo_tiles x y else WALL)" for x y
    using lv by (simp add: getTile_def update_frame demo_level_def)
  have ent: "canEnterTileType ?u (getTile ?u (fst h + fst dv) (snd h + snd dv))"
    using ins tl by (simp add: gt canEnterTileType_def)
  from tryMove_accepts [of ?u s h "[]" d dv t] obtain g' where
    mv: "tryMove d t ?u = Some (True, g')"
    using st sn sg gate D ent by (auto simp: update_frame)
  have mt: "move_target ?u d = ?c"
    using sn sg D by (simp add: move_target_eq [where h = h and rest = "[]"] update_frame)
  have tt: "target_tile ?u d = EMPTY"
    using ins tl by (simp add: target_tile_def mt gt)
  from mv obtain s0 where
    sn0: "snake ?u = Some s0"
    and sn': "snake g' = Some (s0\<lparr>segments := moved_segments ?u s0 (move_target ?u d) (target_tile ?u d),
                          direction := d\<rparr>)"
    and h': "history g' = (if length (history ?u) \<ge> HISTORY_LIMIT then tl (history ?u) else history ?u)
                    @ [move_delta ?u s0 d t (move_target ?u d) (target_tile ?u d)]"
    and star': "starMovesRemaining g' =
       (if target_tile ?u d = STAR_ITEM then STAR_POWER_MOVES
        else if starMovesRemaining ?u > 0 then starMovesRemaining ?u - 1
        else starMovesRemaining ?u)"
    and lv': "if is_pickup (target_tile ?u d)
     then \<exists>l. currentLevel ?u = Some l \<and>
              currentLevel g' = Some (l\<lparr>tiles := set_tile (fst (move_target ?u d)) (snd (move_target ?u d))
                                                   EMPTY (tiles l)\<rparr>)
     else currentLevel g' = currentLevel ?u"
    and mc: "moveCount g' = moveCount ?u + 1"
    by (rule tryMove_result)
  have s0: "s0 = s" using sn0 sn by (simp add: update_frame)
  have sg': "segs g' = [?c]"
    using sn' s0 sg by (simp add: segs_def tt mt moved_segments_def warp_target_def item_growth_def)
  have lv2: "currentLevel g' = Some demo_level"
    using lv' lv by (simp add: tt is_pickup_def update_frame)
  have "getTile g' (fst ?c) (snd ?c) = EMPTY"
    using lv2 ins tl by (simp add: getTile_def demo_level_def)
  then have st': "state g' = PLAYING"
    using tryMove_state [OF mv] sg' by simp
  have "reduceMotion g'" and "\<forall>a. moveAnimation g' = Some a \<longrightarrow> duration a = 0"
    using tryMove_anim [OF mv] rm by (auto simp: update_frame)
  moreover have "starMovesRemaining g' = 0" using star' star by (simp add: tt update_frame)
  moreover have "\<exists>s'. snake g' = Some s' \<and> segments s' = [?c]"
    using sg' sn' by (auto simp: segs_def)
  ultimately have "on_demo g' ?c" using st' lv2 by (simp add: on_demo_def)
  moreover have "history g' = (if length (history g) \<ge> HISTORY_LIMIT then tl (history g) else history g)
                          @ [last (history g')]"
    using h' [unfolded update_frame] by simp
  ultimately show ?thesis using mv st' mc by (auto simp: update_frame)
qed

lemma on_demo_right:
  assumes "on_demo g (0, 1)"
  shows "\<exists>g'. tryMove ''right'' t (update now g) = Some (True, g') \<and> state g' = PLAYING \<and>
           on_demo g' (1, 1) \<and> moveCount g' = moveCount g + 1 \<and>
           history g' = (if length (history g) \<ge> HISTORY_LIMIT then tl (history g) else history g)
                          @ [last (history g')]"
  using on_demo_step [OF assms, of "''right''" "(1, 0)" t now]
  by (simp add: DIRECTIONS_simps isInside_simps demo_cells)

lemma on_demo_left:
  assumes "on_demo g (1, 1)"
  shows "\<exists>g'. tryMove ''left'' t (update now g) = Some (True, g') \<and> state g' = PLAYING \<and>
           on_demo g' (0, 1) \<and> moveCount g' = moveCount g + 1 \<and>
           history g' = (if length (history g) \<ge> HISTORY_LIMIT then tl (history g) else history g)
                          @ [last (history g')]"
  using on_demo_step [OF assms, of "''left''" "(-1, 0)" t now]
  by (simp add: DIRECTIONS_simps isInside_simps demo_cells)

lemma pingpong_runs:
  "on_demo g (if odd n then (0, 1) else (1, 1)) \<Longrightarrow> \<exists>g'. play_moves (pingpong n) g = Some g'"
proof (induction n arbitrary: g)
  case 0
  then show ?case by simp
next
  case (Suc n)
  show ?case
  proof (cases "even n")
    case True
    with Suc.prems have "on_demo g (0, 1)" by simp
    from on_demo_right [OF this, of 0 0] obtain g1 where
      m: "tryMove ''right'' 0 (update 0 g) = Some (True, g1)" "state g1 = PLAYING" "on_demo g1 (1, 1)"
      by blast
    with True Suc.IH [of g1] show ?thesis by simp
  next
    case False
    with Suc.prems have "on_demo g (1, 1)" by simp
    from on_demo_left [OF this, of 0 0] obtain g1 where
      m: "tryMove ''left'' 0 (update 0 g) = Some (True, g1)" "state g1 = PLAYING" "on_demo g1 (0, 1)"
      by blast
    with False Suc.IH [of g1] show ?thesis by simp
  qed
qed

lemma length_pingpong [simp]: "length (pingpong n) = n"
  by (induction n) simp_all

lemma on_demo_demo_game: "on_demo demo_game (0, 1)"
  by (simp add: on_demo_def demo_game_def)


lemma setState_PLAYING:
  "setState PLAYING g = (True, g\<lparr>state := PLAYING\<rparr>)"
  by (cases "state g") (simp_all add: setState_def isTransitionAllowed_def)

text \<open>
  C1, as the code has it. After \<open>loadLevel\<close> and the switch to the Playing state, any run
  of at most \<open>HISTORY_LIMIT\<close> (300) accepted moves that stays in the Playing state is
  undone by as many calls of \<open>undo\<close>: snake (segment list and facing), level grid, move
  count, star counter and both item counters are those of the loaded level again. And
  for every accepted move that leaves the game in the Playing state, from any game, one
  \<open>undo\<close> succeeds and brings back the snake, the level grid and the move count of
  before that move.
\<close>

theorem undo_restores_level_start:
  "(loadLevel i gp = Some gl \<and> play_moves ms (snd (setState PLAYING gl)) = Some g \<and>
    length ms \<le> HISTORY_LIMIT \<longrightarrow>
      (\<exists>g'. undos (length ms) g = Some g' \<and> snake g' = snake gl \<and>
            currentLevel g' = currentLevel gl \<and> moveCount g' = moveCount gl \<and>
            starMovesRemaining g' = starMovesRemaining gl \<and>
            levelCollectedItems g' = levelCollectedItems gl \<and>
            totalItemsCollected g' = totalItemsCollected gl)) \<and>
   (tryMove d t ga = Some (True, gb) \<and> state gb = PLAYING \<longrightarrow>
      (\<exists>gc. undo gb = Some (True, gc) \<and> snake gc = snake ga \<and>
            currentLevel gc = currentLevel ga \<and> moveCount gc = moveCount ga))"
proof -
  have P1: "loadLevel i gp = Some gl \<and> play_moves ms (snd (setState PLAYING gl)) = Some g \<and>
    length ms \<le> HISTORY_LIMIT \<longrightarrow>
      (\<exists>g'. undos (length ms) g = Some g' \<and> snake g' = snake gl \<and>
            currentLevel g' = currentLevel gl \<and> moveCount g' = moveCount gl \<and>
            starMovesRemaining g' = starMovesRemaining gl \<and>
            levelCollectedItems g' = levelCollectedItems gl \<and>
            totalItemsCollected g' = totalItemsCollected gl)"
  proof (rule impI)
    assume a: "loadLevel i gp = Some gl \<and> play_moves ms (snd (setState PLAYING gl)) = Some g \<and>
      length ms \<le> HISTORY_LIMIT"
    let ?g0 = "gl\<lparr>state := PLAYING\<rparr>"
    from a have ld: "history gl = []" "starMovesRemaining gl = 0"
      using loadLevel_fields [of i gp gl] by auto
    from a have run: "play_moves ms ?g0 = Some g" by (simp add: setState_PLAYING)
    from undos_play_moves [OF run] a ld obtain g' where
      u: "undos (length ms) g = Some g'" and c: "core g' = core ?g0"
      by auto
    from c have "snake g' = snake gl \<and>
            currentLevel g' = currentLevel gl \<and> moveCount g' = moveCount gl \<and>
            starMovesRemaining g' = starMovesRemaining gl \<and>
            levelCollectedItems g' = levelCollectedItems gl \<and>
            totalItemsCollected g' = totalItemsCollected gl"
      by (simp add: core_def)
    with u show "\<exists>g'. undos (length ms) g = Some g' \<and> snake g' = snake gl \<and>
            currentLevel g' = currentLevel gl \<and> moveCount g' = moveCount gl \<and>
            starMovesRemaining g' = starMovesRemaining gl \<and>
            levelCollectedItems g' = levelCollectedItems gl \<and>
            totalItemsCollected g' = totalItemsCollected gl"
      by blast
  qed
  have P2: "tryMove d t ga = Some (True, gb) \<and> state gb = PLAYING \<longrightarrow>
      (\<exists>gc. undo gb = Some (True, gc) \<and> snake gc = snake ga \<and>
            currentLevel gc = currentLevel ga \<and> moveCount gc = moveCount ga)"
  proof (rule impI)
    assume a: "tryMove d t ga = Some (True, gb) \<and> state gb = PLAYING"
    from undo_after_move [of d t ga gb] a obtain gc where
      "undo gb = Some (True, gc)" "snake gc = snake ga" "currentLevel gc = currentLevel ga"
      "moveCount gc = moveCount ga"
      by blast
    then show "\<exists>gc. undo gb = Some (True, gc) \<and> snake gc = snake ga \<and>
            currentLevel gc = currentLevel ga \<and> moveCount gc = moveCount ga"
      by blast
  qed
  show ?thesis by (intro conjI P1 P2)
qed


lemma demo_setState: "snd (setState PLAYING (demo_game\<lparr>state := TITLE\<rparr>)) = demo_game"
  by (simp add: setState_PLAYING demo_game_def)

lemma demo_run_result:
  "map_option segs (play_moves demo_run demo_game) = Some [(10, 13), (6, 1)]"
  by code_simp

theorem undo_restores_level_start_witness:
  "\<exists>g g' gb gc.
     loadLevel 0 demo_title = Some (demo_game\<lparr>state := TITLE\<rparr>) \<and>
     play_moves demo_run (snd (setState PLAYING (demo_game\<lparr>state := TITLE\<rparr>))) = Some g \<and>
     length demo_run \<le> HISTORY_LIMIT \<and> segs g = [(10, 13), (6, 1)] \<and>
     undos (length demo_run) g = Some g' \<and> segs g' = [(0, 1)] \<and> moveCount g' = 0 \<and>
     starMovesRemaining g' = 0 \<and> levelCollectedItems g' = 0 \<and>
     currentLevel g' = Some demo_level \<and>
     tryMove ''right'' 0 (update 0 demo_game) = Some (True, gb) \<and> state gb = PLAYING \<and>
     undo gb = Some (True, gc) \<and> segs gc = [(0, 1)]"
proof -
  let ?gl = "demo_game\<lparr>state := TITLE\<rparr>"
  from demo_run_result obtain g where
    run: "play_moves demo_run demo_game = Some g" and sg: "segs g = [(10, 13), (6, 1)]"
    by auto
  have len: "length demo_run \<le> HISTORY_LIMIT" by (simp add: demo_run_def HISTORY_LIMIT_def)
  have h1: "loadLevel 0 demo_title = Some ?gl \<and>
      play_moves demo_run (snd (setState PLAYING ?gl)) = Some g \<and> length demo_run \<le> HISTORY_LIMIT"
    using demo_load run len by (simp add: demo_setState)
  from on_demo_right [OF on_demo_demo_game, of 0 0] obtain gb where
    mv: "tryMove ''right'' 0 (update 0 demo_game) = Some (True, gb)" and st: "state gb = PLAYING"
    by blast
  have h2: "tryMove ''right'' 0 (update 0 demo_game) = Some (True, gb) \<and> state gb = PLAYING"
    using mv st by simp
  note inst = undo_restores_level_start [of 0 demo_title ?gl demo_run g "''right''" 0
      "update 0 demo_game" gb]
  from inst [THEN conjunct1, THEN mp, OF h1] obtain g' where
    g': "undos (length demo_run) g = Some g' \<and> snake g' = snake ?gl \<and>
            currentLevel g' = currentLevel ?gl \<and> moveCount g' = moveCount ?gl \<and>
            starMovesRemaining g' = starMovesRemaining ?gl \<and>
            levelCollectedItems g' = levelCollectedItems ?gl \<and>
            totalItemsCollected g' = totalItemsCollected ?gl" ..
  from inst [THEN conjunct2, THEN mp, OF h2] obtain gc where
    gc: "undo gb = Some (True, gc) \<and> snake gc = snake (update 0 demo_game) \<and>
            currentLevel gc = currentLevel (update 0 demo_game) \<and>
            moveCount gc = moveCount (update 0 demo_game)" ..
  have f: "segs g' = [(0, 1)]" "moveCount g' = 0" "starMovesRemaining g' = 0"
    "levelCollectedItems g' = 0" "currentLevel g' = Some demo_level"
    using g' by (simp_all add: segs_def demo_game_def)
  have "segs gc = [(0, 1)]" using gc by (simp add: segs_def update_frame demo_game_basics)
  with h1 sg g' f mv st gc show ?thesis by blast
qed

theorem undo_inverse_counterexample:
  "map_option (\<lambda>gl. (segs gl, moveCount gl)) (loadLevel 0 demo_title) = Some ([(0, 1)], 0) \<and>
   Option.bind (loadLevel 0 demo_title)
     (\<lambda>gl. Option.bind (play_moves (pingpong 301) (snd (setState PLAYING gl)))
        (\<lambda>g. map_option (\<lambda>g'. (segs g', moveCount g')) (undos 301 g)))
     = Some ([(1, 1)], 1)"
proof -
  have start: "map_option (\<lambda>gl. (segs gl, moveCount gl)) (loadLevel 0 demo_title) = Some ([(0, 1)], 0)"
    by (simp add: demo_load segs_def demo_game_def)
  have pp: "pingpong 301 = (0, ''right'', 0) # pingpong 300"
  proof -
    have "(301::nat) = Suc 300" by simp
    then show ?thesis by (simp only: pingpong.simps) simp
  qed
  from on_demo_right [OF on_demo_demo_game, of 0 0] obtain g1 where
    mv: "tryMove ''right'' 0 (update 0 demo_game) = Some (True, g1)" and st1: "state g1 = PLAYING"
    and on1: "on_demo g1 (1, 1)" and mc1: "moveCount g1 = moveCount demo_game + 1"
    and h1: "history g1 = (if length (history demo_game) \<ge> HISTORY_LIMIT
                           then tl (history demo_game) else history demo_game) @ [last (history g1)]"
    by blast
  have hl1: "length (history g1) = 1"
    using h1 by (simp add: demo_game_basics HISTORY_LIMIT_def) (metis length_Cons list.size(3) One_nat_def)
  have "on_demo g1 (if odd (300::nat) then (0, 1) else (1, 1))" using on1 by simp
  from pingpong_runs [OF this] obtain g where run: "play_moves (pingpong 300) g1 = Some g" by blast
  have star1: "0 \<le> starMovesRemaining g1" using on1 by (simp add: on_demo_def)
  from undos_play_moves [OF run _ star1] hl1 obtain g2 where
    u300: "undos 300 g = Some g2" and c2: "core g2 = core g1"
    and h2: "history g2 = drop (length (history g1) + 300 - HISTORY_LIMIT) (history g1)"
    by (auto simp: HISTORY_LIMIT_def)
  have h2e: "history g2 = []" using h2 hl1 by (simp add: HISTORY_LIMIT_def)
  have st2: "state g2 = PLAYING" using c2 st1 by (simp add: core_def)
  have u2: "undo g2 = Some (False, g2)" using h2e st2 by (simp add: undo_def)
  have "(301::nat) = Suc 300" by simp
  then have "undos 301 g = Option.bind (undos 300 g) (\<lambda>g'. map_option snd (undo g'))"
    by (simp only: undos_Suc_right)
  then have u301: "undos 301 g = Some g2" using u300 u2 by simp
  have sg2: "segs g2 = [(1, 1)]" using c2 on1 by (auto simp: core_def on_demo_def segs_def)
  have mc2: "moveCount g2 = 1" using c2 mc1 by (simp add: core_def demo_game_def)
  have "play_moves (pingpong 301) demo_game = Some g"
    using mv st1 run by (simp add: pp)
  then show ?thesis using start u301 sg2 mc2 by (simp add: demo_load demo_setState)
qed


subsection \<open>Star power\<close>

lemma play_moves_events:
  "play_moves ms g = Some g' \<Longrightarrow> \<exists>evs. eventQueue g' = eventQueue g @ evs"
proof (induction ms arbitrary: g)
  case Nil
  then show ?case by simp
next
  case (Cons m ms)
  obtain now d t where m: "m = (now, d, t)" by (cases m)
  from Cons.prems m obtain ga where
    mv: "tryMove d t (update now g) = Some (True, ga)" and run: "play_moves ms ga = Some g'"
    by (auto split: option.splits bool.splits if_splits)
  from tryMove_events [OF mv] obtain e1 where "eventQueue ga = eventQueue g @ e1"
    by (auto simp: update_frame)
  moreover from Cons.IH [OF run] obtain e2 where "eventQueue g' = eventQueue ga @ e2" by auto
  ultimately show ?case by simp
qed

lemma new_events_append: "eventQueue g' = eventQueue g @ evs \<Longrightarrow> new_events g g' = evs"
  by (simp add: new_events_def)

lemma run_star:
  assumes "play_moves ms g = Some g'" and "0 \<le> starMovesRemaining g"
    and "\<not> list_ex is_power_start (new_events g g')"
  shows "starMovesRemaining g' = max 0 (starMovesRemaining g - int (length ms)) \<and>
         count_power_end (new_events g g')
           = (if 0 < starMovesRemaining g \<and> starMovesRemaining g \<le> int (length ms) then 1 else 0)"
  using assms
proof (induction ms arbitrary: g)
  case Nil
  then show ?case by (simp add: new_events_def count_power_end_def)
next
  case (Cons m ms)
  obtain now d t where m: "m = (now, d, t)" by (cases m)
  let ?u = "update now g"
  from Cons.prems(1) m obtain ga where
    mv: "tryMove d t ?u = Some (True, ga)" and run: "play_moves ms ga = Some g'"
    by (auto split: option.splits bool.splits if_splits)
  from tryMove_events [OF mv] obtain e1 where
    e1: "eventQueue ga = eventQueue g @ e1"
    and c1: "count_power_end e1
             = (if starMovesRemaining g = 1 \<and> target_tile ?u d \<noteq> STAR_ITEM then 1 else 0)"
    and p1: "list_ex is_power_start e1 \<longleftrightarrow> target_tile ?u d = STAR_ITEM"
    by (auto simp: update_frame)
  from play_moves_events [OF run] obtain e2 where e2: "eventQueue g' = eventQueue ga @ e2" by auto
  have ne: "new_events g g' = e1 @ e2" "new_events ga g' = e2"
    using e1 e2 by (simp_all add: new_events_def)
  from Cons.prems(3) ne have np1: "\<not> list_ex is_power_start e1" and np2: "\<not> list_ex is_power_start e2"
    by simp_all
  from np1 p1 have nt: "target_tile ?u d \<noteq> STAR_ITEM" by simp
  have sa: "starMovesRemaining ga
              = (if starMovesRemaining g > 0 then starMovesRemaining g - 1 else starMovesRemaining g)"
    using mv nt by (elim tryMove_result) (simp add: update_frame)
  then have sa0: "0 \<le> starMovesRemaining ga" using Cons.prems(2) by simp
  from Cons.IH [OF run sa0] np2 ne have
    ih: "starMovesRemaining g' = max 0 (starMovesRemaining ga - int (length ms))"
        "count_power_end e2
           = (if 0 < starMovesRemaining ga \<and> starMovesRemaining ga \<le> int (length ms) then 1 else 0)"
    by simp_all
  show ?case using ih sa c1 nt ne Cons.prems(2) by (auto simp: m)
qed

text \<open>
  C6, as the code has it. On an accepted move from a non-negative star counter: a move
  onto a StarItem tile sets the counter to \<open>STAR_POWER_MOVES\<close> without decrementing it
  and emits no \<open>power_end\<close>; any other move lowers a positive counter by exactly one and
  leaves a zero counter at zero; the counter is never negative; and the move emits
  \<open>power_end\<close> exactly once if it takes the counter from positive to zero and not at all
  otherwise. After an activation, a run of further accepted moves with no new activation
  in it leaves the counter at \<open>STAR_POWER_MOVES\<close> less the number of moves, not below
  zero, and has emitted exactly one \<open>power_end\<close> once the counter is used up, none
  before. The count is per run of the counter, not per activation: a StarItem taken while
  the counter is positive sets it back to \<open>STAR_POWER_MOVES\<close> and the two activations
  end with one \<open>power_end\<close>; an \<open>undo\<close> of the move that used the counter up brings
  the counter back, and the next move emits \<open>power_end\<close> again.
\<close>

theorem star_power_decay:
  "(tryMove d t g = Some (True, g') \<and> 0 \<le> starMovesRemaining g \<longrightarrow>
      (target_tile g d = STAR_ITEM \<longrightarrow> starMovesRemaining g' = STAR_POWER_MOVES) \<and>
      (target_tile g d \<noteq> STAR_ITEM \<and> starMovesRemaining g > 0 \<longrightarrow>
         starMovesRemaining g' = starMovesRemaining g - 1) \<and>
      (target_tile g d \<noteq> STAR_ITEM \<and> starMovesRemaining g = 0 \<longrightarrow> starMovesRemaining g' = 0) \<and>
      0 \<le> starMovesRemaining g' \<and>
      count_power_end (new_events g g')
        = (if target_tile g d \<noteq> STAR_ITEM \<and> starMovesRemaining g > 0 \<and> starMovesRemaining g' = 0
           then 1 else 0)) \<and>
   (tryMove d t g = Some (True, g1) \<and> target_tile g d = STAR_ITEM \<and> play_moves ms g1 = Some g2 \<and>
    \<not> list_ex is_power_start (new_events g1 g2) \<longrightarrow>
      starMovesRemaining g2 = max 0 (STAR_POWER_MOVES - int (length ms)) \<and>
      count_power_end (new_events g1 g2) = (if STAR_POWER_MOVES \<le> int (length ms) then 1 else 0))"
proof -
  have P1: "tryMove d t g = Some (True, g') \<and> 0 \<le> starMovesRemaining g \<longrightarrow>
      (target_tile g d = STAR_ITEM \<longrightarrow> starMovesRemaining g' = STAR_POWER_MOVES) \<and>
      (target_tile g d \<noteq> STAR_ITEM \<and> starMovesRemaining g > 0 \<longrightarrow>
         starMovesRemaining g' = starMovesRemaining g - 1) \<and>
      (target_tile g d \<noteq> STAR_ITEM \<and> starMovesRemaining g = 0 \<longrightarrow> starMovesRemaining g' = 0) \<and>
      0 \<le> starMovesRemaining g' \<and>
      count_power_end (new_events g g')
        = (if target_tile g d \<noteq> STAR_ITEM \<and> starMovesRemaining g > 0 \<and> starMovesRemaining g' = 0
           then 1 else 0)"
  proof (rule impI)
    assume a: "tryMove d t g = Some (True, g') \<and> 0 \<le> starMovesRemaining g"
    then have mv: "tryMove d t g = Some (True, g')" and nn: "0 \<le> starMovesRemaining g" by simp_all
    have s: "starMovesRemaining g' =
       (if target_tile g d = STAR_ITEM then STAR_POWER_MOVES
        else if starMovesRemaining g > 0 then starMovesRemaining g - 1
        else starMovesRemaining g)"
      using mv by (elim tryMove_result)
    from tryMove_events [OF mv] obtain evs where
      "eventQueue g' = eventQueue g @ evs"
      "count_power_end evs
             = (if starMovesRemaining g = 1 \<and> target_tile g d \<noteq> STAR_ITEM then 1 else 0)"
      by auto
    then have c: "count_power_end (new_events g g')
             = (if starMovesRemaining g = 1 \<and> target_tile g d \<noteq> STAR_ITEM then 1 else 0)"
      by (simp add: new_events_def)
    show "(target_tile g d = STAR_ITEM \<longrightarrow> starMovesRemaining g' = STAR_POWER_MOVES) \<and>
      (target_tile g d \<noteq> STAR_ITEM \<and> starMovesRemaining g > 0 \<longrightarrow>
         starMovesRemaining g' = starMovesRemaining g - 1) \<and>
      (target_tile g d \<noteq> STAR_ITEM \<and> starMovesRemaining g = 0 \<longrightarrow> starMovesRemaining g' = 0) \<and>
      0 \<le> starMovesRemaining g' \<and>
      count_power_end (new_events g g')
        = (if target_tile g d \<noteq> STAR_ITEM \<and> starMovesRemaining g > 0 \<and> starMovesRemaining g' = 0
           then 1 else 0)"
      using s c nn by (auto simp: STAR_POWER_MOVES_def)
  qed
  have P2: "tryMove d t g = Some (True, g1) \<and> target_tile g d = STAR_ITEM \<and> play_moves ms g1 = Some g2 \<and>
    \<not> list_ex is_power_start (new_events g1 g2) \<longrightarrow>
      starMovesRemaining g2 = max 0 (STAR_POWER_MOVES - int (length ms)) \<and>
      count_power_end (new_events g1 g2) = (if STAR_POWER_MOVES \<le> int (length ms) then 1 else 0)"
  proof (rule impI)
    assume a: "tryMove d t g = Some (True, g1) \<and> target_tile g d = STAR_ITEM \<and>
      play_moves ms g1 = Some g2 \<and> \<not> list_ex is_power_start (new_events g1 g2)"
    then have mv: "tryMove d t g = Some (True, g1)" and tt: "target_tile g d = STAR_ITEM"
      and run: "play_moves ms g1 = Some g2" and np: "\<not> list_ex is_power_start (new_events g1 g2)"
      by simp_all
    have s1: "starMovesRemaining g1 = STAR_POWER_MOVES"
      using mv tt by (elim tryMove_result) simp
    then have "0 \<le> starMovesRemaining g1" by (simp add: STAR_POWER_MOVES_def)
    from run_star [OF run this np] s1
    show "starMovesRemaining g2 = max 0 (STAR_POWER_MOVES - int (length ms)) \<and>
      count_power_end (new_events g1 g2) = (if STAR_POWER_MOVES \<le> int (length ms) then 1 else 0)"
      by (simp add: STAR_POWER_MOVES_def)
  qed
  show ?thesis by (intro conjI P1 P2)
qed

lemma demo_star_move:
  "tryMove ''right'' 0 (demo_at [(3, 1)])
     = Some (True, snd (the (tryMove ''right'' 0 (demo_at [(3, 1)]))))"
  using demo_accepts [of "''right''" "(1, 0)" "(3, 1)" 0 "[]"]
  by (auto simp: DIRECTIONS_simps isInside_simps demo_cells)

lemma demo_star_run:
  "(case play_moves star_run (snd (the (tryMove ''right'' 0 (demo_at [(3, 1)])))) of
      None \<Rightarrow> False
    | Some g2 \<Rightarrow> \<not> list_ex is_power_start
                     (new_events (snd (the (tryMove ''right'' 0 (demo_at [(3, 1)])))) g2)
                 \<and> segs g2 = [(4, 1)])"
  by code_simp

theorem star_power_decay_witness:
  "\<exists>g1 g2.
     tryMove ''right'' 0 (demo_at [(3, 1)]) = Some (True, g1) \<and>
     starMovesRemaining g1 = 8 \<and> count_power_end (new_events (demo_at [(3, 1)]) g1) = 0 \<and>
     play_moves star_run g1 = Some g2 \<and> length star_run = 8 \<and>
     starMovesRemaining g2 = 0 \<and> count_power_end (new_events g1 g2) = 1"
proof -
  let ?g = "demo_at [(3, 1)]"
  let ?g1 = "snd (the (tryMove ''right'' 0 ?g))"
  have t3: "move_target ?g ''right'' = (4, 1)"
    by (simp add: demo_target [of _ "(1, 0)"] DIRECTIONS_simps)
  have tt: "target_tile ?g ''right'' = STAR_ITEM"
    by (simp add: target_tile_def t3 getTile_demo isInside_simps demo_cells)
  from demo_star_run obtain g2 where run: "play_moves star_run ?g1 = Some g2"
    and np: "\<not> list_ex is_power_start (new_events ?g1 g2)"
    by (auto split: option.splits)
  have h1: "tryMove ''right'' 0 ?g = Some (True, ?g1) \<and> 0 \<le> starMovesRemaining ?g"
    using demo_star_move by (simp add: demo_at_basics)
  have h2: "tryMove ''right'' 0 ?g = Some (True, ?g1) \<and> target_tile ?g ''right'' = STAR_ITEM \<and>
      play_moves star_run ?g1 = Some g2 \<and> \<not> list_ex is_power_start (new_events ?g1 g2)"
    using demo_star_move tt run np by simp
  note inst = star_power_decay [of "''right''" 0 ?g ?g1 ?g1 star_run g2]
  note r1 = inst [THEN conjunct1, THEN mp, OF h1]
  note r2 = inst [THEN conjunct2, THEN mp, OF h2]
  have len: "length star_run = 8" by (simp add: star_run_def)
  have "starMovesRemaining ?g1 = 8" "count_power_end (new_events ?g ?g1) = 0"
    using r1 tt by (simp_all add: STAR_POWER_MOVES_def)
  moreover have "starMovesRemaining g2 = 0" "count_power_end (new_events ?g1 g2) = 1"
    using r2 len by (simp_all add: STAR_POWER_MOVES_def)
  ultimately show ?thesis using demo_star_move run len by blast
qed


theorem power_end_per_activation_counterexample:
  "map_option (\<lambda>g. (length (filter is_power_start (eventQueue g)),
                     count_power_end (eventQueue g), starMovesRemaining g, segs g))
     (Option.bind (start_game star2_def) (play_moves (replicate 12 (0, ''right'', 0))))
   = Some (2, 1, 0, [(12, 1)]) \<and>
   Option.bind (start_game demo_def)
     (\<lambda>g0. Option.bind (play_moves (replicate 4 (0, ''right'', 0) @ star_run) g0)
       (\<lambda>g1. Option.bind (undo g1)
         (\<lambda>r. map_option
                 (\<lambda>r'. (fst r, fst r', length (filter is_power_start (eventQueue (snd r'))),
                         count_power_end (eventQueue (snd r'))))
                 (tryMove ''left'' 0 (snd r)))))
   = Some (True, True, 1, 2)"
  by code_simp


subsection \<open>Distinct segment lists\<close>

lemma distinct_moved:
  assumes "distinct S" and "S \<noteq> []"
  shows "distinct (x # butlast S @ replicate k (last S)) \<longleftrightarrow>
           k \<le> 1 \<and> x \<notin> set (butlast S) \<and> (k = 1 \<longrightarrow> x \<noteq> last S)"
proof -
  from assms have S: "S = butlast S @ [last S]" by simp
  from assms have db: "distinct (butlast S)" by (simp add: distinct_butlast)
  have "distinct (butlast S @ [last S])" using assms by simp
  then have nl: "last S \<notin> set (butlast S)" by simp
  consider "k = 0" | "k = 1" | "k \<ge> 2" by linarith
  then show ?thesis
  proof cases
    case 1
    then show ?thesis using db by simp
  next
    case 2
    then show ?thesis using db nl by auto
  next
    case 3
    then obtain j where "k = Suc (Suc j)" by (metis Suc_le_D numeral_2_eq_2 Suc_le_mono)
    then show ?thesis by simp
  qed
qed


subsection \<open>The verifier's successor against the engine\<close>

lemma scan_cells_mem: "x < nat GRID_COLS \<Longrightarrow> y < nat GRID_ROWS \<Longrightarrow> (int x, int y) \<in> set scan_cells"
  by (force simp: scan_cells_def)

lemma scan_cells_iff: "p \<in> set scan_cells \<longleftrightarrow> isInside (fst p) (snd p)"
proof
  assume "p \<in> set scan_cells"
  then show "isInside (fst p) (snd p)"
    by (auto simp: scan_cells_def isInside_def GRID_COLS_def GRID_ROWS_def)
next
  assume a: "isInside (fst p) (snd p)"
  define x y where "x = nat (fst p)" and "y = nat (snd p)"
  have p: "p = (int x, int y)" using a by (simp add: isInside_def x_def y_def)
  have "x < nat GRID_COLS" "y < nat GRID_ROWS"
    using a by (auto simp: isInside_def GRID_COLS_def GRID_ROWS_def x_def y_def)
  then have "(int x, int y) \<in> set scan_cells" by (rule scan_cells_mem)
  then show "p \<in> set scan_cells" by (simp add: p)
qed

lemma find_Some_iff_first: "find P xs = Some x \<Longrightarrow> P x \<and> x \<in> set xs"
  by (induction xs) (auto split: if_splits)

lemma find_filter: "find P xs = (case filter P xs of [] \<Rightarrow> None | x # _ \<Rightarrow> Some x)"
  by (induction xs) auto

lemma first_tile_props:
  assumes "first_tile ts t = Some p"
  shows "tile_at ts (fst p) (snd p) = t" "isInside (fst p) (snd p)"
    "portal_cells ts t \<noteq> []" "hd (portal_cells ts t) = p"
proof -
  from assms have f: "find (\<lambda>p. tile_at ts (fst p) (snd p) = t) scan_cells = Some p"
    by (simp add: first_tile_def)
  then have "tile_at ts (fst p) (snd p) = t \<and> p \<in> set scan_cells"
    by (rule find_Some_iff_first)
  then show "tile_at ts (fst p) (snd p) = t" "isInside (fst p) (snd p)"
    by (simp_all add: scan_cells_iff)
  from f show "portal_cells ts t \<noteq> []" "hd (portal_cells ts t) = p"
    by (auto simp: find_filter portal_cells_def split: list.splits)
qed

lemma first_tile_None: "first_tile ts t = None \<Longrightarrow> portal_cells ts t = []"
  by (auto simp: first_tile_def find_filter portal_cells_def split: list.splits)

lemma solve_tile_wf:
  assumes "wf_grid ts"
  shows "solve_tile ts x y = (if isInside x y then Some (tile_at ts x y) else None)"
proof (cases "isInside x y")
  case True
  with assms have y: "nat y < length ts" "0 \<le> y" "y < int (length ts)"
    by (auto simp: wf_grid_def isInside_def)
  with assms have "int (length (ts ! nat y)) = GRID_COLS"
    by (auto simp: wf_grid_def list_all_length)
  with True have "0 \<le> x \<and> x < int (length (ts ! nat y))" by (auto simp: isInside_def)
  with y True show ?thesis by (simp add: solve_tile_def tile_at_def)
next
  case False
  show ?thesis
  proof (cases "0 \<le> y \<and> y < int (length ts)")
    case True
    with assms have "int (length (ts ! nat y)) = GRID_COLS"
      by (auto simp: wf_grid_def list_all_length)
    moreover from True assms have "y < GRID_ROWS" by (simp add: wf_grid_def)
    ultimately show ?thesis using False True by (auto simp: solve_tile_def isInside_def)
  next
    case False
    then show ?thesis using \<open>\<not> isInside x y\<close> by (auto simp: solve_tile_def)
  qed
qed

lemma map_nth_upt_take: "n \<le> length xs \<Longrightarrow> map (\<lambda>i. xs ! i) [0..<n] = take n xs"
  by (induction n) (simp_all add: take_Suc_conv_app_nth)

lemma map_nth_butlast: "map (\<lambda>i. xs ! i) [0..<length xs - 1] = butlast xs"
  by (simp add: map_nth_upt_take butlast_conv_take)

lemma map_nth_butlast': "map ((!) xs) [0..<length xs - Suc 0] = butlast xs"
  using map_nth_butlast [of xs] by simp


lemma take_moved: "S \<noteq> [] \<Longrightarrow> take (length S) (x # butlast S @ zs) = x # butlast S"
  by (cases S rule: rev_cases) simp_all

lemma links_first:
  assumes fa: "first_tile (tiles l) t = Some c" and t: "t = PORTAL_A \<or> t = PORTAL_B"
    and pl: "portalLinks g = buildPortalLinks (Some l)"
  shows "getPortalDestination g c = first_tile (tiles l) (if t = PORTAL_A then PORTAL_B else PORTAL_A)"
proof -
  let ?o = "if t = PORTAL_A then PORTAL_B else PORTAL_A"
  have tc: "tile_at (tiles l) (fst c) (snd c) = t" using fa by (rule first_tile_props)
  show ?thesis
  proof (cases "first_tile (tiles l) ?o")
    case None
    then show ?thesis using pl t fa
      by (auto simp: getPortalDestination_def buildPortalLinks_def split: option.splits)
  next
    case (Some b)
    then have "tile_at (tiles l) (fst b) (snd b) = ?o" by (rule first_tile_props)
    with tc t have "b \<noteq> c" by auto
    then show ?thesis using pl t fa Some
      by (auto simp: getPortalDestination_def buildPortalLinks_def split: option.splits)
  qed
qed

text \<open>
  C2, as the code has it. For a game standing where a search node stands and each of the
  four direction names: the verifier's successor computation skips the direction exactly
  when \<open>tryMove\<close> rejects it; otherwise \<open>tryMove\<close> accepts it and the successor has the
  engine's star counter. The verifier shifts the segments but never grows them and never
  changes a tile: behind the head its successor has the old segments without the last,
  where the engine has these followed by one copy of the old tail per grown segment.
  Unless the destination is a portal tile that is not the first of its kind in scan
  order, the successor's segment list is the engine's cut to the old length, head
  included.
\<close>

theorem verifier_step_agrees:
  assumes em: "engine_matches g ts node" and dn: "d \<in> set directionNames"
  shows "(solve_step ts node d = None \<longleftrightarrow> (\<exists>g'. tryMove d t g = Some (False, g'))) \<and>
         (\<forall>n'. solve_step ts node d = Some n' \<longrightarrow>
            (\<exists>g'. tryMove d t g = Some (True, g') \<and>
                  starMoves n' = starMovesRemaining g' \<and>
                  tl (node_segments n') = butlast (node_segments node) \<and>
                  tl (segs g') = butlast (node_segments node)
                      @ replicate (item_growth (target_tile g d)) (last (node_segments node)) \<and>
                  (\<not> later_portal ts (target_tile g d) (move_target g d) \<longrightarrow>
                     node_segments n' = take (length (node_segments node)) (segs g'))))"
proof -
  from em obtain s l where
    st: "state g = PLAYING" and gate: "\<not> animation_gate g" and wf: "wf_grid ts"
    and sn: "snake g = Some s" and sg: "segments s = node_segments node"
    and lv: "currentLevel g = Some l" and tl: "tiles l = ts"
    and pl: "portalLinks g = buildPortalLinks (Some l)"
    and star: "starMovesRemaining g = starMoves node" and ne: "node_segments node \<noteq> []"
    by (auto simp: engine_matches_def)
  from ne obtain h rest where S: "node_segments node = h # rest" by (cases "node_segments node") auto
  from dn obtain dv where D: "DIRECTIONS d = Some (Vec dv)"
    by (auto simp: directionNames_def DIRECTIONS_def)
  let ?c = "(fst h + fst dv, snd h + snd dv)"
  let ?ct = "getTile g (fst h + fst dv) (snd h + snd dv)"
  have mt: "move_target g d = ?c" using sn sg S D by (simp add: move_target_eq)
  have tt: "target_tile g d = ?ct" by (simp add: target_tile_def mt)
  have gt: "getTile g x y = (if isInside x y then tile_at ts x y else WALL)" for x y
    using lv tl by (simp add: getTile_def)
  have step: "solve_step ts node d = successor ts node h dv"
    using S D by (simp add: solve_step_def)
  have ce: "canEnterTileType g ?ct \<longleftrightarrow> ?ct \<noteq> WALL \<and> \<not> (?ct = OBSTACLE \<and> \<not> starMoves node > 0)"
    by (auto simp: canEnterTileType_def isStarActive_def star)
  show ?thesis
  proof (cases "canEnterTileType g ?ct")
    case False
    then have "successor ts node h dv = None"
      using ce by (auto simp: successor_def solve_tile_wf [OF wf] gt Let_def)
    moreover have "\<exists>g'. tryMove d t g = Some (False, g')"
      using tryMove_blocked [OF st sn _ gate D False, of rest t] sg S by auto
    ultimately show ?thesis by (simp add: step)
  next
    case True
    then have ins: "isInside (fst h + fst dv) (snd h + snd dv)" and ctv: "?ct = tile_at ts (fst ?c) (snd ?c)"
      using ce by (auto simp: gt split: if_splits)
    from tryMove_accepts [OF st sn _ gate D True, of rest t] sg S obtain g' where
      mv: "tryMove d t g = Some (True, g')" by auto
    from mv obtain s0 where
      sn0: "snake g = Some s0"
      and sn': "snake g' = Some (s0\<lparr>segments := moved_segments g s0 (move_target g d) (target_tile g d),
                          direction := d\<rparr>)"
      and star': "starMovesRemaining g' =
         (if target_tile g d = STAR_ITEM then STAR_POWER_MOVES
          else if starMovesRemaining g > 0 then starMovesRemaining g - 1
          else starMovesRemaining g)"
      by (rule tryMove_result)
    have s0: "segments s0 = node_segments node" using sn0 sn sg by simp
    let ?x = "case warp_target g ?c ?ct of None \<Rightarrow> ?c | Some dest \<Rightarrow> dest"
    have sg': "segs g' = ?x # butlast (node_segments node)
                  @ replicate (item_growth ?ct) (last (node_segments node))"
      using sn' s0 by (simp add: segs_def moved_segments_def mt tt)
    let ?pa = "portal_cells ts PORTAL_A" and ?pb = "portal_cells ts PORTAL_B"
    let ?y = "if ?ct = PORTAL_A \<and> length ?pb > 0 then hd ?pb
              else if ?ct = PORTAL_B \<and> length ?pa > 0 then hd ?pa else ?c"
    let ?n' = "\<lparr>node_segments = ?y # butlast (node_segments node), steps = steps node + 1,
                starMoves = (if ?ct = STAR_ITEM then STAR_POWER_MOVES
                             else if starMoves node > 0 then starMoves node - 1
                             else starMoves node)\<rparr>"
    have suc: "successor ts node h dv = Some ?n'"
      using True ce ins ctv
      by (auto simp: successor_def solve_tile_wf [OF wf] Let_def map_nth_butlast')
    have head: "?y = ?x" if np: "\<not> later_portal ts ?ct ?c"
    proof (cases "?ct = PORTAL_A \<or> ?ct = PORTAL_B")
      case False
      then show ?thesis by (auto simp: warp_target_def)
    next
      case pt: True
      with np have fc: "first_tile (tiles l) ?ct = Some ?c" by (simp add: later_portal_def tl)
      let ?o = "if ?ct = PORTAL_A then PORTAL_B else PORTAL_A"
      have gd: "getPortalDestination g ?c = first_tile (tiles l) ?o"
        using fc pt pl by (rule links_first)
      show ?thesis
      proof (cases "first_tile ts ?o")
        case None
        then have "portal_cells ts ?o = []" by (rule first_tile_None)
        then show ?thesis using pt gd None tl by (auto simp: warp_target_def)
      next
        case (Some b)
        note fb = first_tile_props [OF Some]
        have "getTile g (fst b) (snd b) = ?o" using fb by (simp add: gt)
        then have "canEnterTileType g (getTile g (fst b) (snd b))"
          by (auto simp: canEnterTileType_def)
        then have "warp_target g ?c ?ct = Some b"
          using pt gd Some tl by (auto simp: warp_target_def)
        then show ?thesis using pt fb by auto
      qed
    qed
    have "starMoves ?n' = starMovesRemaining g'" using star' star tt by simp
    moreover have "tl (node_segments ?n') = butlast (node_segments node)" by simp
    moreover have "tl (segs g') = butlast (node_segments node)
                      @ replicate (item_growth (target_tile g d)) (last (node_segments node))"
      using sg' tt by simp
    moreover have "\<not> later_portal ts (target_tile g d) (move_target g d) \<longrightarrow>
                     node_segments ?n' = take (length (node_segments node)) (segs g')"
    proof (rule impI)
      assume "\<not> later_portal ts (target_tile g d) (move_target g d)"
      then have "?y = ?x" using head by (simp add: tt mt)
      then show "node_segments ?n' = take (length (node_segments node)) (segs g')"
        by (simp add: sg' take_moved [OF ne])
    qed
    ultimately have "\<exists>g'. tryMove d t g = Some (True, g') \<and>
                  starMoves ?n' = starMovesRemaining g' \<and>
                  tl (node_segments ?n') = butlast (node_segments node) \<and>
                  tl (segs g') = butlast (node_segments node)
                      @ replicate (item_growth (target_tile g d)) (last (node_segments node)) \<and>
                  (\<not> later_portal ts (target_tile g d) (move_target g d) \<longrightarrow>
                     node_segments ?n' = take (length (node_segments node)) (segs g'))"
      using mv by blast
    moreover have "\<not> (\<exists>g'. tryMove d t g = Some (False, g'))" using mv by simp
    ultimately show ?thesis unfolding step suc by simp
  qed
qed


lemma demo_links_built: "portalLinks demo_game = buildPortalLinks (Some demo_level)"
  by code_simp

lemma demo_engine_matches: "engine_matches demo_game demo_tiles demo_node"
  unfolding engine_matches_def
  by (simp add: demo_game_basics wf_demo_tiles demo_node_def demo_links_built demo_level_def)

theorem verifier_step_agrees_witness:
  "engine_matches demo_game demo_tiles demo_node \<and> ''right'' \<in> set directionNames \<and>
   (\<exists>g'. solve_step demo_tiles demo_node ''right''
            = Some \<lparr>node_segments = [(1, 1)], steps = 1, starMoves = 0\<rparr> \<and>
          tryMove ''right'' 0 demo_game = Some (True, g') \<and>
          starMovesRemaining g' = 0 \<and> tl (segs g') = [] \<and> take 1 (segs g') = [(1, 1)])"
proof -
  let ?n = "\<lparr>node_segments = [(1, 1)], steps = 1, starMoves = 0\<rparr>"
  have dn: "''right'' \<in> set directionNames" by (simp add: directionNames_def)
  have st: "solve_step demo_tiles demo_node ''right'' = Some ?n" by code_simp
  have t1: "move_target demo_game ''right'' = (1, 1)"
    by (simp add: demo_game_at demo_target [of _ "(1, 0)"] DIRECTIONS_simps)
  have tt1: "target_tile demo_game ''right'' = EMPTY"
    by (simp add: target_tile_def t1 getTile_demo isInside_simps demo_cells)
  have np: "\<not> later_portal demo_tiles (target_tile demo_game ''right'') (move_target demo_game ''right'')"
    by (simp add: later_portal_def tt1)
  note r = verifier_step_agrees [OF demo_engine_matches dn, of 0, THEN conjunct2, THEN spec,
      THEN mp, OF st]
  from r obtain g' where
    g': "tryMove ''right'' 0 demo_game = Some (True, g') \<and>
         starMoves ?n = starMovesRemaining g' \<and>
         tl (node_segments ?n) = butlast (node_segments demo_node) \<and>
         tl (segs g') = butlast (node_segments demo_node)
            @ replicate (item_growth (target_tile demo_game ''right'')) (last (node_segments demo_node)) \<and>
         (\<not> later_portal demo_tiles (target_tile demo_game ''right'') (move_target demo_game ''right'') \<longrightarrow>
            node_segments ?n = take (length (node_segments demo_node)) (segs g'))" ..
  have "starMovesRemaining g' = 0" using g' by simp
  moreover have "tl (segs g') = []" using g' by (simp add: tt1 item_growth_def demo_node_def)
  moreover have "take 1 (segs g') = [(1, 1)]" using g' np by (simp add: demo_node_def)
  ultimately show ?thesis using demo_engine_matches dn st g' by blast
qed

theorem verifier_identical_counterexample:
  "map_option node_segments (solve_step demo_tiles demo_node ''down'') = Some [(0, 2)] \<and>
   map_option (\<lambda>r. (fst r, segs (snd r))) (tryMove ''down'' 0 demo_game)
     = Some (True, [(0, 2), (0, 1), (0, 1)]) \<and>
   segs demo_game = node_segments demo_node \<and> cur_tiles demo_game = demo_tiles \<and>
   starMovesRemaining demo_game = starMoves demo_node"
  by code_simp

subsection \<open>Level parsing\<close>



lemma charToTile_S: "charToTile (CHR ''S'') = Inr SPAWN"
  by (simp add: charToTile_def)

lemma charToTile_E: "charToTile (CHR ''E'') = Inr EXIT"
  by (simp add: charToTile_def)

lemma charToTile_other:
  assumes "c \<noteq> CHR ''S''" and "c \<noteq> CHR ''E''"
  shows "known_symbol c \<Longrightarrow> \<exists>t. charToTile c = Inr t \<and> t \<noteq> SPAWN \<and> t \<noteq> EXIT \<and> tile_of_char c = t"
    and "\<not> known_symbol c \<Longrightarrow> \<exists>e. charToTile c = Inl e"
  using assms by (auto simp: known_symbol_def charToTile_def tile_of_char_def)

lemma tile_of_char_SE: "tile_of_char (CHR ''S'') = EMPTY" "tile_of_char (CHR ''E'') = EXIT"
  by (simp_all add: tile_of_char_def charToTile_def)

lemma known_SE: "known_symbol (CHR ''S'')" "known_symbol (CHR ''E'')"
  by (simp_all add: known_symbol_def)

lemma parse_cols_step:
  "parse_cols (c # cs) x y sp ec row =
     (if c = CHR ''S'' then
        (if sp \<noteq> None then Inl Multiple_spawn_points
         else parse_cols cs (x + 1) y (Some (x, y)) ec (row @ [EMPTY]))
      else if c = CHR ''E'' then parse_cols cs (x + 1) y sp (ec + 1) (row @ [EXIT])
      else if known_symbol c then parse_cols cs (x + 1) y sp ec (row @ [tile_of_char c])
      else Inl (Unknown_map_symbol c))"
proof (cases "c = CHR ''S'' \<or> c = CHR ''E''")
  case True
  then show ?thesis by (auto simp: charToTile_S charToTile_E)
next
  case False
  then have n: "c \<noteq> CHR ''S''" "c \<noteq> CHR ''E''" by simp_all
  show ?thesis
  proof (cases "known_symbol c")
    case True
    from charToTile_other(1) [OF n True] obtain t where
      "charToTile c = Inr t" "t \<noteq> SPAWN" "t \<noteq> EXIT" "tile_of_char c = t" by blast
    then show ?thesis using n True by simp
  next
    case False
    from charToTile_other(2) [OF n False] obtain e where e: "charToTile c = Inl e" by blast
    then have "e = Unknown_map_symbol c" by (auto simp: charToTile_def split: if_splits)
    then show ?thesis using n False e by simp
  qed
qed

lemma parse_cols_sound:
  "parse_cols cs x y sp ec row = Inr (sp', ec', row') \<Longrightarrow>
     list_all known_symbol cs \<and> row' = row @ map tile_of_char cs \<and>
     ec' = ec + count_list cs (CHR ''E'') \<and>
     (sp \<noteq> None \<longrightarrow> count_list cs (CHR ''S'') = 0) \<and>
     count_list cs (CHR ''S'') \<le> 1 \<and>
     sp' = (if count_list cs (CHR ''S'') = 0 then sp else Some (x + int (spawn_col cs), y))"
proof (induction cs arbitrary: x sp ec row)
  case Nil
  then show ?case by simp
next
  case (Cons c cs)
  show ?case
  proof (cases "c = CHR ''S''")
    case True
    with Cons.prems have sp: "sp = None"
      and r: "parse_cols cs (x + 1) y (Some (x, y)) ec (row @ [EMPTY]) = Inr (sp', ec', row')"
      by (cases sp; simp add: parse_cols_step del: parse_cols.simps(2))+
    from Cons.IH [OF r] True sp show ?thesis
      by (simp add: known_SE tile_of_char_SE spawn_col_def)
  next
    case nS: False
    show ?thesis
    proof (cases "c = CHR ''E''")
      case True
      with Cons.prems nS have
        r: "parse_cols cs (x + 1) y sp (ec + 1) (row @ [EXIT]) = Inr (sp', ec', row')"
        by (simp add: parse_cols_step del: parse_cols.simps(2))
      from Cons.IH [OF r] True nS show ?thesis
        by (simp add: known_SE tile_of_char_SE spawn_col_def)
    next
      case nE: False
      with Cons.prems nS have k: "known_symbol c"
        and r: "parse_cols cs (x + 1) y sp ec (row @ [tile_of_char c]) = Inr (sp', ec', row')"
        by (simp_all add: parse_cols_step del: parse_cols.simps(2) split: if_splits)
      from Cons.IH [OF r] nS nE k show ?thesis
        by (simp add: spawn_col_def)
    qed
  qed
qed

lemma parse_cols_complete:
  "list_all known_symbol cs \<Longrightarrow>
   (sp \<noteq> None \<longrightarrow> count_list cs (CHR ''S'') = 0) \<Longrightarrow>
   (sp = None \<longrightarrow> count_list cs (CHR ''S'') \<le> 1) \<Longrightarrow>
   \<exists>r. parse_cols cs x y sp ec row = Inr r"
proof (induction cs arbitrary: x sp ec row)
  case Nil
  then show ?case by simp
next
  case (Cons c cs)
  then show ?case by (auto simp: parse_cols_step simp del: parse_cols.simps(2) split: if_splits)
qed


lemma count_list_app: "count_list (xs @ ys) a = count_list xs a + count_list ys a"
  by (induction xs) simp_all

lemma spawn_row_Cons:
  "spawn_row (row # rows) = (if count_list row (CHR ''S'') = 0 then Suc (spawn_row rows) else 0)"
  by (simp add: spawn_row_def count_list_0_iff)

lemma parse_rows_sound:
  "parse_rows rows y (sp, ec, ts) = Inr (sp', ec', ts') \<Longrightarrow>
     list_all (\<lambda>row. int (length row) = GRID_COLS \<and> list_all known_symbol row) rows \<and>
     ts' = ts @ map (map tile_of_char) rows \<and>
     ec' = ec + count_list (concat rows) (CHR ''E'') \<and>
     (sp \<noteq> None \<longrightarrow> count_list (concat rows) (CHR ''S'') = 0) \<and>
     count_list (concat rows) (CHR ''S'') \<le> 1 \<and>
     sp' = (if count_list (concat rows) (CHR ''S'') = 0 then sp
            else Some (int (spawn_col (rows ! spawn_row rows)), y + int (spawn_row rows)))"
proof (induction rows arbitrary: y sp ec ts)
  case Nil
  then show ?case by simp
next
  case (Cons row rows)
  from Cons.prems obtain sp1 ec1 tr where
    len: "int (length row) = GRID_COLS"
    and c: "parse_cols row 0 y sp ec [] = Inr (sp1, ec1, tr)"
    and r: "parse_rows rows (y + 1) (sp1, ec1, ts @ [tr]) = Inr (sp', ec', ts')"
    by (auto split: if_splits sum.splits)
  note cs = parse_cols_sound [OF c]
  note rs = Cons.IH [OF r]
  show ?case
  proof (cases "count_list row (CHR ''S'') = 0")
    case True
    then show ?thesis using cs rs len
      by (simp add: count_list_app spawn_row_Cons)
  next
    case False
    then have "sp1 \<noteq> None" using cs by simp
    then have "count_list (concat rows) (CHR ''S'') = 0" using rs by simp
    then show ?thesis using cs rs len False
      by (simp add: count_list_app spawn_row_Cons)
  qed
qed

lemma parse_rows_complete:
  "list_all (\<lambda>row. int (length row) = GRID_COLS \<and> list_all known_symbol row) rows \<Longrightarrow>
   (sp \<noteq> None \<longrightarrow> count_list (concat rows) (CHR ''S'') = 0) \<Longrightarrow>
   count_list (concat rows) (CHR ''S'') \<le> 1 \<Longrightarrow>
   \<exists>r. parse_rows rows y (sp, ec, ts) = Inr r"
proof (induction rows arbitrary: y sp ec ts)
  case Nil
  then show ?case by simp
next
  case (Cons row rows)
  from Cons.prems have len: "int (length row) = GRID_COLS" and kn: "list_all known_symbol row"
    and rest: "list_all (\<lambda>row. int (length row) = GRID_COLS \<and> list_all known_symbol row) rows"
    by simp_all
  from Cons.prems have tot: "count_list row (CHR ''S'') + count_list (concat rows) (CHR ''S'') \<le> 1"
    and spc: "sp \<noteq> None \<longrightarrow> count_list row (CHR ''S'') = 0 \<and> count_list (concat rows) (CHR ''S'') = 0"
    by (simp_all add: count_list_app)
  from parse_cols_complete [OF kn, of sp 0 y ec "[]"] tot spc obtain r1 where
    "parse_cols row 0 y sp ec [] = Inr r1" by auto
  then obtain sp1 ec1 tr where c: "parse_cols row 0 y sp ec [] = Inr (sp1, ec1, tr)"
    by (cases r1) auto
  note cs = parse_cols_sound [OF c]
  have a1: "sp1 \<noteq> None \<longrightarrow> count_list (concat rows) (CHR ''S'') = 0"
    using cs tot spc by (auto split: if_splits)
  have a2: "count_list (concat rows) (CHR ''S'') \<le> 1" using tot by simp
  from Cons.IH [OF rest a1 a2, of "y + 1" ec1 "ts @ [tr]"] obtain r where
    "parse_rows rows (y + 1) (sp1, ec1, ts @ [tr]) = Inr r" by blast
  then show ?case using len c by (cases r) auto
qed

lemma takeWhile_stops:
  "\<exists>x\<in>set xs. \<not> P x \<Longrightarrow> length (takeWhile P xs) < length xs"
  by (induction xs) auto

lemma spawn_col_nth:
  assumes "count_list cs (CHR ''S'') \<noteq> 0"
  shows "spawn_col cs < length cs \<and> cs ! spawn_col cs = CHR ''S''"
proof -
  from assms have "CHR ''S'' \<in> set cs" by (simp add: count_list_0_iff)
  then have "\<exists>c\<in>set cs. \<not> c \<noteq> CHR ''S''" by auto
  then have l: "length (takeWhile (\<lambda>c. c \<noteq> CHR ''S'') cs) < length cs"
    by (rule takeWhile_stops)
  from nth_length_takeWhile [OF l] l show ?thesis by (simp add: spawn_col_def)
qed

lemma spawn_row_nth:
  assumes "count_list (concat rows) (CHR ''S'') \<noteq> 0"
  shows "spawn_row rows < length rows \<and> count_list (rows ! spawn_row rows) (CHR ''S'') \<noteq> 0"
proof -
  from assms have "CHR ''S'' \<in> set (concat rows)" by (simp add: count_list_0_iff)
  then have "\<exists>row\<in>set rows. \<not> CHR ''S'' \<notin> set row" by auto
  then have l: "length (takeWhile (\<lambda>row. CHR ''S'' \<notin> set row) rows) < length rows"
    by (rule takeWhile_stops)
  from nth_length_takeWhile [OF l] l show ?thesis
    by (simp add: spawn_row_def count_list_0_iff)
qed


lemma parseMap_success:
  "parseMap (Some ld) = Inr lv \<longleftrightarrow>
     (\<exists>rows. def_map ld = Some rows \<and> valid_map rows \<and>
        lv = \<lparr>level_id = def_id ld, snakeLength = def_snakeLength ld,
              spawn = (int (spawn_col (rows ! spawn_row rows)), int (spawn_row rows)),
              tiles = map (map tile_of_char) rows\<rparr>)"
proof (cases "def_map ld")
  case None
  then show ?thesis by (simp add: parseMap_def)
next
  case (Some rows)
  show ?thesis
  proof
    assume ok: "parseMap (Some ld) = Inr lv"
    then have len: "int (length rows) = GRID_ROWS"
      using Some by (simp add: parseMap_def split: if_splits)
    from ok Some len obtain p ec ts where
      pr: "parse_rows rows 0 (None, 0, []) = Inr (Some p, ec, ts)"
      and ec: "ec \<noteq> 0"
      and lv: "lv = \<lparr>level_id = def_id ld, snakeLength = def_snakeLength ld, spawn = p, tiles = ts\<rparr>"
      by (auto simp: parseMap_def split: sum.splits option.splits if_splits)
    note s = parse_rows_sound [OF pr]
    from s have c1: "count_list (concat rows) (CHR ''S'') = 1"
      by (auto split: if_splits)
    with s ec len lv Some show "\<exists>rows. def_map ld = Some rows \<and> valid_map rows \<and>
        lv = \<lparr>level_id = def_id ld, snakeLength = def_snakeLength ld,
              spawn = (int (spawn_col (rows ! spawn_row rows)), int (spawn_row rows)),
              tiles = map (map tile_of_char) rows\<rparr>"
      by (simp add: valid_map_def)
  next
    assume "\<exists>rows. def_map ld = Some rows \<and> valid_map rows \<and>
        lv = \<lparr>level_id = def_id ld, snakeLength = def_snakeLength ld,
              spawn = (int (spawn_col (rows ! spawn_row rows)), int (spawn_row rows)),
              tiles = map (map tile_of_char) rows\<rparr>"
    with Some have v: "valid_map rows"
      and lv: "lv = \<lparr>level_id = def_id ld, snakeLength = def_snakeLength ld,
              spawn = (int (spawn_col (rows ! spawn_row rows)), int (spawn_row rows)),
              tiles = map (map tile_of_char) rows\<rparr>"
      by simp_all
    from v have len: "int (length rows) = GRID_ROWS"
      and la: "list_all (\<lambda>row. int (length row) = GRID_COLS \<and> list_all known_symbol row) rows"
      and c1: "count_list (concat rows) (CHR ''S'') = 1"
      and ce: "count_list (concat rows) (CHR ''E'') \<ge> 1"
      by (simp_all add: valid_map_def)
    from parse_rows_complete [OF la, of None 0 0 "[]"] c1 obtain r where
      "parse_rows rows 0 (None, 0, []) = Inr r" by auto
    then obtain sp ec ts where pr: "parse_rows rows 0 (None, 0, []) = Inr (sp, ec, ts)"
      by (cases r) auto
    note s = parse_rows_sound [OF pr]
    from s c1 ce have "sp = Some (int (spawn_col (rows ! spawn_row rows)), int (spawn_row rows))"
      and "ec \<noteq> 0" and "ts = map (map tile_of_char) rows"
      by simp_all
    with pr len Some lv show "parseMap (Some ld) = Inr lv"
      by (simp add: parseMap_def)
  qed
qed

lemma parseMap_total:
  "(\<exists>lv. parseMap levelDef = Inr lv) \<or> (\<exists>e. parseMap levelDef = Inl e)"
  by (cases "parseMap levelDef") auto

lemma spawn_cell:
  assumes "valid_map rows"
  shows "spawn_row rows < length rows \<and>
         spawn_col (rows ! spawn_row rows) < length (rows ! spawn_row rows) \<and>
         rows ! spawn_row rows ! spawn_col (rows ! spawn_row rows) = CHR ''S'' \<and>
         tile_at (map (map tile_of_char) rows)
           (int (spawn_col (rows ! spawn_row rows))) (int (spawn_row rows)) = EMPTY"
proof -
  from assms have "count_list (concat rows) (CHR ''S'') \<noteq> 0" by (simp add: valid_map_def)
  from spawn_row_nth [OF this] have r: "spawn_row rows < length rows"
    and "count_list (rows ! spawn_row rows) (CHR ''S'') \<noteq> 0" by simp_all
  from spawn_col_nth [OF this(2)] have c: "spawn_col (rows ! spawn_row rows) < length (rows ! spawn_row rows)"
    and s: "rows ! spawn_row rows ! spawn_col (rows ! spawn_row rows) = CHR ''S''" by simp_all
  have "tile_of_char (CHR ''S'') = EMPTY" by (simp add: tile_of_char_SE)
  with r c s show ?thesis by (simp add: tile_at_def)
qed

lemma valid_map_wf: "valid_map rows \<Longrightarrow> wf_grid (map (map tile_of_char) rows)"
  by (auto simp: valid_map_def wf_grid_def list_all_iff)

lemma demo_parse: "parseMap (Some demo_def) = Inr demo_level"
  by code_simp

lemma demo_valid: "valid_map demo_rows"
  by code_simp



lemma demo_def_map: "def_map demo_def = Some demo_rows"
  by (simp add: demo_def_def)

text \<open>
  C9. \<open>parseMap\<close> returns a level exactly when the definition carries a map of
  \<open>GRID_ROWS\<close> rows of \<open>GRID_COLS\<close> known symbols each, with exactly one \<open>S\<close> and at
  least one \<open>E\<close>; otherwise it ends in an error. On success the recorded spawn is the
  position of the one \<open>S\<close> of the map, the tile stored there is \<open>EMPTY\<close>, and every other
  tile is the one its symbol stands for.
\<close>

theorem parseMap_validation:
  "((\<exists>lv. parseMap levelDef = Inr lv) \<longleftrightarrow>
      (\<exists>ld rows. levelDef = Some ld \<and> def_map ld = Some rows \<and> valid_map rows)) \<and>
   (\<not> (\<exists>ld rows. levelDef = Some ld \<and> def_map ld = Some rows \<and> valid_map rows) \<longrightarrow>
      (\<exists>e. parseMap levelDef = Inl e)) \<and>
   (parseMap levelDef = Inr lv \<longrightarrow>
      (\<exists>ld rows x y. levelDef = Some ld \<and> def_map ld = Some rows \<and>
         y < length rows \<and> x < length (rows ! y) \<and> rows ! y ! x = CHR ''S'' \<and>
         count_list (concat rows) (CHR ''S'') = 1 \<and>
         spawn lv = (int x, int y) \<and>
         tile_at (tiles lv) (int x) (int y) = EMPTY \<and>
         tiles lv = map (map tile_of_char) rows \<and> wf_grid (tiles lv) \<and>
         level_id lv = def_id ld \<and> snakeLength lv = def_snakeLength ld))"
proof -
  have iff: "(\<exists>lv. parseMap levelDef = Inr lv) \<longleftrightarrow>
      (\<exists>ld rows. levelDef = Some ld \<and> def_map ld = Some rows \<and> valid_map rows)"
  proof (cases levelDef)
    case None
    then show ?thesis by (simp add: parseMap_def)
  next
    case (Some ld)
    then show ?thesis by (simp add: parseMap_success)
  qed
  have err: "\<not> (\<exists>ld rows. levelDef = Some ld \<and> def_map ld = Some rows \<and> valid_map rows) \<longrightarrow>
      (\<exists>e. parseMap levelDef = Inl e)"
    using iff parseMap_total [of levelDef] by blast
  have ok: "parseMap levelDef = Inr lv \<longrightarrow>
      (\<exists>ld rows x y. levelDef = Some ld \<and> def_map ld = Some rows \<and>
         y < length rows \<and> x < length (rows ! y) \<and> rows ! y ! x = CHR ''S'' \<and>
         count_list (concat rows) (CHR ''S'') = 1 \<and>
         spawn lv = (int x, int y) \<and>
         tile_at (tiles lv) (int x) (int y) = EMPTY \<and>
         tiles lv = map (map tile_of_char) rows \<and> wf_grid (tiles lv) \<and>
         level_id lv = def_id ld \<and> snakeLength lv = def_snakeLength ld)"
  proof (rule impI)
    assume p: "parseMap levelDef = Inr lv"
    then obtain ld where ld: "levelDef = Some ld"
      by (cases levelDef) (simp_all add: parseMap_def)
    from p ld obtain rows where rows: "def_map ld = Some rows" and v: "valid_map rows"
      and lv: "lv = \<lparr>level_id = def_id ld, snakeLength = def_snakeLength ld,
              spawn = (int (spawn_col (rows ! spawn_row rows)), int (spawn_row rows)),
              tiles = map (map tile_of_char) rows\<rparr>"
      by (auto simp: parseMap_success)
    note sc = spawn_cell [OF v]
    note wf = valid_map_wf [OF v]
    from v have c1: "count_list (concat rows) (CHR ''S'') = 1" by (simp add: valid_map_def)
    show "\<exists>ld rows x y. levelDef = Some ld \<and> def_map ld = Some rows \<and>
         y < length rows \<and> x < length (rows ! y) \<and> rows ! y ! x = CHR ''S'' \<and>
         count_list (concat rows) (CHR ''S'') = 1 \<and>
         spawn lv = (int x, int y) \<and>
         tile_at (tiles lv) (int x) (int y) = EMPTY \<and>
         tiles lv = map (map tile_of_char) rows \<and> wf_grid (tiles lv) \<and>
         level_id lv = def_id ld \<and> snakeLength lv = def_snakeLength ld"
      apply (rule exI [of _ ld])
      apply (rule exI [of _ rows])
      apply (rule exI [of _ "spawn_col (rows ! spawn_row rows)"])
      apply (rule exI [of _ "spawn_row rows"])
      using ld rows sc wf c1 lv apply simp
      done
  qed
  show ?thesis by (intro conjI iff err ok)
qed

theorem parseMap_validation_witness:
  "parseMap (Some demo_def) = Inr demo_level \<and> valid_map demo_rows \<and>
   demo_rows ! 1 ! 0 = CHR ''S'' \<and> spawn demo_level = (0, 1) \<and>
   tile_at (tiles demo_level) 0 1 = EMPTY \<and>
   (\<exists>e. parseMap None = Inl e)"
proof -
  note inst = parseMap_validation [of "Some demo_def" demo_level]
  from inst [THEN conjunct1] demo_parse have v: "valid_map demo_rows"
    by (simp add: demo_def_map)
  from inst [THEN conjunct2, THEN conjunct2, THEN mp, OF demo_parse]
  obtain x y where "y < length demo_rows" "x < length (demo_rows ! y)"
    "demo_rows ! y ! x = CHR ''S''" "spawn demo_level = (int x, int y)"
    "tile_at (tiles demo_level) (int x) (int y) = EMPTY"
    by (auto simp: demo_def_map)
  moreover have sp: "spawn demo_level = (0, 1)" by (simp add: demo_level_def)
  ultimately have c: "demo_rows ! 1 ! 0 = CHR ''S''" "tile_at (tiles demo_level) 0 1 = EMPTY"
    by auto
  from parseMap_validation [of None, THEN conjunct2, THEN conjunct1]
  have e: "\<exists>e. parseMap None = Inl e" by simp
  show ?thesis by (intro conjI demo_parse v c sp e)
qed

subsection \<open>The initial placement search\<close>


lemma set_insert_by_score: "set (insert_by_score a bs) = insert a (set bs)"
  by (induction bs) auto

lemma set_sort_options: "set (sort_options opts) = set opts"
  by (induction opts) (simp_all add: sort_options_def set_insert_by_score)

lemma dfs_options_mem:
  "opt \<in> set (dfs_options ts visited p) \<Longrightarrow>
     fst opt \<in> set baseOrder \<and> step_to p (fst opt) \<notin> set visited \<and>
     isWalkable ts (fst (step_to p (fst opt))) (snd (step_to p (fst opt)))"
  by (auto simp: dfs_options_def set_sort_options)

lemma dfs_options_has:
  "name \<in> set baseOrder \<Longrightarrow> step_to p name \<notin> set visited \<Longrightarrow>
   isWalkable ts (fst (step_to p name)) (snd (step_to p name)) \<Longrightarrow>
   \<exists>opt \<in> set (dfs_options ts visited p). fst opt = name"
  by (force simp: dfs_options_def set_sort_options)

lemma isWalkable_inside: "isWalkable ts x y \<Longrightarrow> isInside x y"
  by (auto simp: isWalkable_def isInside_def split: if_splits)

lemma scan_cells_inside: "p \<in> set scan_cells \<longleftrightarrow> isInside (fst p) (snd p)"
  by (rule scan_cells_iff)

lemma walkable_scan: "isWalkable ts (fst q) (snd q) \<Longrightarrow> q \<in> set scan_cells"
  by (simp add: scan_cells_iff isWalkable_inside)

lemma card_free_less:
  assumes "q \<in> set scan_cells" "q \<notin> set visited"
  shows "card (set scan_cells - set (q # visited)) < card (set scan_cells - set visited)"
proof -
  have eq: "set scan_cells - set (q # visited) = (set scan_cells - set visited) - {q}" by auto
  show ?thesis unfolding eq by (rule card_Diff1_less) (use assms in auto)
qed

lemma dfs_fuel:
  "card (set scan_cells - set visited) < fuel \<Longrightarrow> dfs fuel ts len path visited p \<noteq> None"
  "card (set scan_cells - set visited) \<le> fuel \<Longrightarrow>
   (\<forall>opt\<in>set opts. step_to p (fst opt) \<in> set scan_cells - set visited) \<Longrightarrow>
   dfs_loop fuel ts len path visited p opts \<noteq> None"
proof (induction fuel ts len path visited p and fuel ts len path visited p opts
    rule: dfs_dfs_loop.induct)
  case (1 ts len path visited p)
  then show ?case by simp
next
  case (2 fuel ts len path visited p)
  show ?case
  proof (cases "len \<le> int (length path)")
    case True
    then show ?thesis by simp
  next
    case False
    have "\<forall>opt\<in>set (dfs_options ts visited p). step_to p (fst opt) \<in> set scan_cells - set visited"
      using dfs_options_mem [of _ ts visited p] walkable_scan by blast
    with 2 False show ?thesis by simp
  qed
next
  case (3 fuel ts len path visited p)
  then show ?case by simp
next
  case (4 fuel ts len path visited p opt opts)
  let ?next = "step_to p (fst opt)"
  from 4(4) have nx: "?next \<in> set scan_cells" "?next \<notin> set visited" by simp_all
  from card_free_less [OF nx] 4(3)
  have c: "card (set scan_cells - set (?next # visited)) < fuel" by simp
  from 4(1) [OF refl c] have d: "dfs fuel ts len (path @ [?next]) (?next # visited) ?next \<noteq> None" .
  show ?case
  proof (cases "dfs fuel ts len (path @ [?next]) (?next # visited) ?next")
    case None
    with d show ?thesis by simp
  next
    case (Some r)
    show ?thesis
    proof (cases r)
      case None
      from 4(2) [OF refl \<open>dfs fuel ts len (path @ [?next]) (?next # visited) ?next = Some r\<close>
          None 4(3)] 4(4)
        \<open>dfs fuel ts len (path @ [?next]) (?next # visited) ?next = Some r\<close> None
      show ?thesis by simp
    next
      case (Some found)
      with \<open>dfs fuel ts len (path @ [?next]) (?next # visited) ?next = Some r\<close>
      show ?thesis by simp
    qed
  qed
qed

lemma card_scan_cells: "card (set scan_cells) \<le> 300"
proof -
  have "length scan_cells = 300" by code_simp
  then show ?thesis using card_length [of scan_cells] by simp
qed

lemma buildInitialSegments_defined: "buildInitialSegments sp len ts \<noteq> None"
proof -
  have "card (set scan_cells - set [sp]) \<le> card (set scan_cells)"
    by (rule card_mono) auto
  with card_scan_cells have "card (set scan_cells - set [sp]) < nat (GRID_COLS * GRID_ROWS) + 1"
    by (simp add: GRID_COLS_def GRID_ROWS_def)
  from dfs_fuel(1) [OF this, of ts len "[sp]" sp] show ?thesis
    by (auto simp: buildInitialSegments_def simp del: dfs.simps dfs_loop.simps split: option.splits)
qed

lemma loadLevel_defined:
  assumes "levels g \<noteq> []"
  shows "\<exists>g'. loadLevel i g = Some g'"
proof -
  from assms have "0 \<le> clamp i 0 (int (length (levels g)) - 1)"
    by (cases "levels g") (simp_all add: clamp_def)
  then show ?thesis using buildInitialSegments_defined
    by (auto simp: loadLevel_def Let_def new_Snake_def split: option.splits)
qed


lemma walk_from_append:
  "walk_from ts p (qs @ rs) \<longleftrightarrow> walk_from ts p qs \<and> walk_from ts (last (p # qs)) rs"
  by (induction qs arbitrary: p) auto

lemma dfs_sound:
  "dfs fuel ts len path visited p = Some (Some found) \<Longrightarrow>
     \<exists>ext. found = path @ ext \<and> walk_from ts p ext \<and> distinct ext \<and>
           set ext \<inter> set visited = {} \<and> len \<le> int (length found) \<and>
           (ext \<noteq> [] \<longrightarrow> int (length found) = len)"
  "dfs_loop fuel ts len path visited p opts = Some (Some found) \<Longrightarrow>
   int (length path) < len \<Longrightarrow>
   (\<forall>opt\<in>set opts. step_to p (fst opt) \<notin> set visited \<and> fst opt \<in> set baseOrder \<and>
       isWalkable ts (fst (step_to p (fst opt))) (snd (step_to p (fst opt)))) \<Longrightarrow>
     \<exists>ext. found = path @ ext \<and> walk_from ts p ext \<and> distinct ext \<and>
           set ext \<inter> set visited = {} \<and> ext \<noteq> [] \<and> int (length found) = len"
proof (induction fuel ts len path visited p and fuel ts len path visited p opts
    arbitrary: found and found rule: dfs_dfs_loop.induct)
  case (1 ts len path visited p)
  then show ?case by simp
next
  case (2 fuel ts len path visited p)
  show ?case
  proof (cases "len \<le> int (length path)")
    case True
    with 2(2) have "found = path" by simp
    with True show ?thesis by simp
  next
    case False
    with 2(2) have l: "dfs_loop fuel ts len path visited p (dfs_options ts visited p) = Some (Some found)"
      by simp
    have v: "\<forall>opt\<in>set (dfs_options ts visited p). step_to p (fst opt) \<notin> set visited \<and>
        fst opt \<in> set baseOrder \<and>
        isWalkable ts (fst (step_to p (fst opt))) (snd (step_to p (fst opt)))"
      using dfs_options_mem [of _ ts visited p] by blast
    from 2(1) [OF False l _ v] False show ?thesis by auto
  qed
next
  case (3 fuel ts len path visited p)
  then show ?case by simp
next
  case (4 fuel ts len path visited p opt opts)
  let ?next = "step_to p (fst opt)"
  let ?r = "dfs fuel ts len (path @ [?next]) (?next # visited) ?next"
  from 4(5) have nx: "?next \<notin> set visited" "fst opt \<in> set baseOrder"
    "isWalkable ts (fst ?next) (snd ?next)" by simp_all
  show ?case
  proof (cases ?r)
    case None
    with 4(3) show ?thesis by simp
  next
    case (Some r)
    show ?thesis
    proof (cases r)
      case None
      with Some 4(3) have "dfs_loop fuel ts len path visited p opts = Some (Some found)" by simp
      from 4(2) [OF refl Some None this 4(4)] 4(5) show ?thesis by simp
    next
      case (Some f)
      with \<open>?r = Some r\<close> 4(3) have f: "?r = Some (Some found)" by simp
      from 4(1) [OF refl f] obtain ext where
        e: "found = (path @ [?next]) @ ext" "walk_from ts ?next ext" "distinct ext"
          "set ext \<inter> set (?next # visited) = {}" "len \<le> int (length found)"
          "ext \<noteq> [] \<longrightarrow> int (length found) = len"
        by blast
      have len: "int (length found) = len"
      proof (cases "ext = []")
        case True
        with e(1) e(5) 4(4) show ?thesis by simp
      next
        case False
        with e(6) show ?thesis by simp
      qed
      have "found = path @ (?next # ext) \<and> walk_from ts p (?next # ext) \<and>
            distinct (?next # ext) \<and> set (?next # ext) \<inter> set visited = {} \<and>
            ?next # ext \<noteq> [] \<and> int (length found) = len"
        using e nx len by auto
      then show ?thesis by blast
    qed
  qed
qed

lemma dfs_complete:
  "card (set scan_cells - set visited) < fuel \<Longrightarrow>
   (\<exists>qs. walk_from ts p qs \<and> distinct qs \<and> set qs \<inter> set visited = {} \<and>
         len \<le> int (length path) + int (length qs)) \<Longrightarrow>
   \<exists>found. dfs fuel ts len path visited p = Some (Some found)"
  "card (set scan_cells - set visited) \<le> fuel \<Longrightarrow>
   (\<forall>opt\<in>set opts. step_to p (fst opt) \<in> set scan_cells - set visited) \<Longrightarrow>
   (\<exists>opt\<in>set opts. \<exists>qs. walk_from ts (step_to p (fst opt)) qs \<and>
         distinct (step_to p (fst opt) # qs) \<and>
         set (step_to p (fst opt) # qs) \<inter> set visited = {} \<and>
         len \<le> int (length path) + 1 + int (length qs)) \<Longrightarrow>
   \<exists>found. dfs_loop fuel ts len path visited p opts = Some (Some found)"
proof (induction fuel ts len path visited p and fuel ts len path visited p opts
    rule: dfs_dfs_loop.induct)
  case (1 ts len path visited p)
  then show ?case by simp
next
  case (2 fuel ts len path visited p)
  show ?case
  proof (cases "len \<le> int (length path)")
    case True
    then show ?thesis by simp
  next
    case False
    from 2(3) obtain qs where qs: "walk_from ts p qs" "distinct qs" "set qs \<inter> set visited = {}"
      "len \<le> int (length path) + int (length qs)" by blast
    with False obtain q qs' where c: "qs = q # qs'" by (cases qs) auto
    from qs(1) c obtain name where n: "name \<in> set baseOrder" "q = step_to p name"
      and w: "isWalkable ts (fst q) (snd q)" and wq: "walk_from ts q qs'" by auto
    from qs(3) c have nv: "q \<notin> set visited" by auto
    from dfs_options_has [OF n(1) nv [unfolded n(2)] w [unfolded n(2)]]
    obtain opt where o: "opt \<in> set (dfs_options ts visited p)" "fst opt = name" by blast
    have v: "\<forall>opt\<in>set (dfs_options ts visited p). step_to p (fst opt) \<in> set scan_cells - set visited"
      using dfs_options_mem [of _ ts visited p] walkable_scan by blast
    have ex: "\<exists>opt\<in>set (dfs_options ts visited p). \<exists>qs. walk_from ts (step_to p (fst opt)) qs \<and>
         distinct (step_to p (fst opt) # qs) \<and>
         set (step_to p (fst opt) # qs) \<inter> set visited = {} \<and>
         len \<le> int (length path) + 1 + int (length qs)"
      apply (rule bexI [OF _ o(1)])
      apply (rule exI [of _ qs'])
      using qs c n o(2) wq by auto
    from 2(2) have "card (set scan_cells - set visited) \<le> fuel" by simp
    from 2(1) [OF False this v ex] False show ?thesis by simp
  qed
next
  case (3 fuel ts len path visited p)
  then show ?case by simp
next
  case (4 fuel ts len path visited p opt opts)
  let ?next = "step_to p (fst opt)"
  let ?r = "dfs fuel ts len (path @ [?next]) (?next # visited) ?next"
  from 4(4) have nx: "?next \<in> set scan_cells" "?next \<notin> set visited" by simp_all
  from card_free_less [OF nx] 4(3)
  have c: "card (set scan_cells - set (?next # visited)) < fuel" by simp
  from dfs_fuel(1) [OF c] obtain r where r: "?r = Some r" by blast
  show ?case
  proof (cases r)
    case (Some f)
    with r show ?thesis by simp
  next
    case None
    from 4(5) obtain o' qs where o': "o' \<in> set (opt # opts)"
      and q: "walk_from ts (step_to p (fst o')) qs" "distinct (step_to p (fst o') # qs)"
        "set (step_to p (fst o') # qs) \<inter> set visited = {}"
        "len \<le> int (length path) + 1 + int (length qs)" by blast
    have "step_to p (fst o') \<noteq> ?next"
    proof
      assume eq: "step_to p (fst o') = ?next"
      have "\<exists>qs. walk_from ts ?next qs \<and> distinct qs \<and> set qs \<inter> set (?next # visited) = {} \<and>
         len \<le> int (length (path @ [?next])) + int (length qs)"
        apply (rule exI [of _ qs])
        using q eq by auto
      from 4(1) [OF refl c this] r None show False by simp
    qed
    with o' have o'': "o' \<in> set opts" by auto
    have ex: "\<exists>opt\<in>set opts. \<exists>qs. walk_from ts (step_to p (fst opt)) qs \<and>
         distinct (step_to p (fst opt) # qs) \<and>
         set (step_to p (fst opt) # qs) \<inter> set visited = {} \<and>
         len \<le> int (length path) + 1 + int (length qs)"
      using o'' q by blast
    from 4(4) have v: "\<forall>opt\<in>set opts. step_to p (fst opt) \<in> set scan_cells - set visited" by simp
    from 4(2) [OF refl r None 4(3) v ex] r None show ?thesis by simp
  qed
qed


lemma pad_path_spawn:
  "pad_path len [sp] = replicate (nat (max 1 len)) sp"
proof -
  have "nat (max 1 len) = Suc (nat (len - 1))" by (simp add: max_def) arith
  then show ?thesis by (simp add: pad_path_def)
qed

lemma dfs_top:
  "\<exists>r. dfs (nat (GRID_COLS * GRID_ROWS) + 1) ts len [sp] [sp] sp = Some r"
proof -
  have "card (set scan_cells - set [sp]) \<le> card (set scan_cells)"
    by (rule card_mono) auto
  with card_scan_cells have "card (set scan_cells - set [sp]) < nat (GRID_COLS * GRID_ROWS) + 1"
    by (simp add: GRID_COLS_def GRID_ROWS_def)
  from dfs_fuel(1) [OF this, of ts len "[sp]" sp] show ?thesis by blast
qed

lemma buildInitialSegments_cases:
  "\<exists>segs0. buildInitialSegments sp len ts = Some segs0 \<and>
      length segs0 = nat (max 1 len) \<and> hd segs0 = sp \<and>
      (if \<exists>qs. int (length qs) = max 1 len - 1 \<and> walk_from ts sp qs \<and> distinct (sp # qs)
       then distinct segs0 \<and> walk_from ts sp (tl segs0)
       else segs0 = replicate (nat (max 1 len)) sp)"
proof -
  let ?fuel = "nat (GRID_COLS * GRID_ROWS) + 1"
  let ?X = "\<exists>qs. int (length qs) = max 1 len - 1 \<and> walk_from ts sp qs \<and> distinct (sp # qs)"
  have free: "card (set scan_cells - set [sp]) < ?fuel"
  proof -
    have "card (set scan_cells - set [sp]) \<le> card (set scan_cells)"
      by (rule card_mono) auto
    with card_scan_cells show ?thesis by (simp add: GRID_COLS_def GRID_ROWS_def)
  qed
  from dfs_top obtain r where r: "dfs ?fuel ts len [sp] [sp] sp = Some r" by blast
  show ?thesis
  proof (cases r)
    case None
    have nx: "\<not> ?X"
    proof
      assume ?X
      then obtain qs where qs: "int (length qs) = max 1 len - 1" "walk_from ts sp qs"
        "distinct (sp # qs)" by blast
      have "\<exists>qs. walk_from ts sp qs \<and> distinct qs \<and> set qs \<inter> set [sp] = {} \<and>
         len \<le> int (length [sp]) + int (length qs)"
        apply (rule exI [of _ qs])
        using qs by auto
      from dfs_complete(1) [OF free this] r None show False by simp
    qed
    have B: "buildInitialSegments sp len ts = Some (replicate (nat (max 1 len)) sp)"
      using r None by (simp add: buildInitialSegments_def pad_path_spawn del: dfs.simps)
    have pos: "nat (max 1 len) \<noteq> 0" by simp
    show ?thesis
    proof (rule exI [of _ "replicate (nat (max 1 len)) sp"], intro conjI)
      show "buildInitialSegments sp len ts = Some (replicate (nat (max 1 len)) sp)" by (rule B)
      show "length (replicate (nat (max 1 len)) sp) = nat (max 1 len)" by simp
      show "hd (replicate (nat (max 1 len)) sp) = sp" using pos by (rule hd_replicate)
      show "if ?X then distinct (replicate (nat (max 1 len)) sp) \<and>
                 walk_from ts sp (tl (replicate (nat (max 1 len)) sp))
            else replicate (nat (max 1 len)) sp = replicate (nat (max 1 len)) sp"
        using nx by (simp only: if_False refl)
    qed
  next
    case (Some found)
    with r have f: "dfs ?fuel ts len [sp] [sp] sp = Some (Some found)" by simp
    from dfs_sound(1) [OF f] obtain ext where
      e: "found = [sp] @ ext" "walk_from ts sp ext" "distinct ext" "set ext \<inter> set [sp] = {}"
        "len \<le> int (length found)" "ext \<noteq> [] \<longrightarrow> int (length found) = len"
      by blast
    have l: "int (length found) = max 1 len"
    proof (cases "ext = []")
      case True
      with e(1) e(5) show ?thesis by simp
    next
      case False
      with e(6) e(1) show ?thesis by (cases ext) auto
    qed
    have X: ?X
      apply (rule exI [of _ ext])
      using e l by auto
    have "pad_path len found = found" using e(5) by (simp add: pad_path_def)
    then have "buildInitialSegments sp len ts = Some found"
      using f by (simp add: buildInitialSegments_def del: dfs.simps)
    moreover have "length found = nat (max 1 len)" using l by simp
    moreover have "hd found = sp" "distinct found" "walk_from ts sp (tl found)"
      using e by auto
    ultimately show ?thesis using X by (simp only: if_True) blast
  qed
qed


subsection \<open>The first tile of a kind in scan order\<close>


lemma scan_cells_index:
  "scan_cells = map (\<lambda>i. (int (i mod 20), int (i div 20))) [0..<300]"
  by code_simp

lemma scan_cells_nth:
  "i < 300 \<Longrightarrow> scan_cells ! i = (int (i mod 20), int (i div 20))"
  by (simp add: scan_cells_index)

lemma length_scan_cells: "length scan_cells = 300"
  by (simp add: scan_cells_index)

lemma index_less:
  assumes "x < 20" "y < i div 20 \<or> (y = i div 20 \<and> x < i mod 20)"
  shows "y * 20 + x < (i::nat)"
proof -
  have i: "i = (i div 20) * 20 + i mod 20" by simp
  from assms(2) show ?thesis
  proof
    assume "y < i div 20"
    then have "Suc y \<le> i div 20" by simp
    then have "Suc y * 20 \<le> (i div 20) * 20" by (rule mult_le_mono1)
    then have "y * 20 + 20 \<le> (i div 20) * 20" by simp
    with assms(1) i show ?thesis by linarith
  next
    assume "y = i div 20 \<and> x < i mod 20"
    with i show ?thesis by linarith
  qed
qed

lemma index_less_conv:
  assumes "j < (i::nat)"
  shows "j div 20 < i div 20 \<or> (j div 20 = i div 20 \<and> j mod 20 < i mod 20)"
proof (rule ccontr)
  assume n: "\<not> ?thesis"
  have d: "j div 20 \<le> i div 20" using assms by (simp add: div_le_mono)
  with n have e: "j div 20 = i div 20" "\<not> j mod 20 < i mod 20" by auto
  have "i = (i div 20) * 20 + i mod 20" "j = (j div 20) * 20 + j mod 20" by simp_all
  with e assms show False by linarith
qed

lemma index_div_lt: "i < 300 \<Longrightarrow> i div 20 < (15::nat)"
  by (rule less_mult_imp_div_less) simp

lemma index_lt: "y \<le> 14 \<Longrightarrow> x \<le> 19 \<Longrightarrow> y * 20 + x < (300::nat)"
  by linarith

lemma scan_cell_inside:
  "i < 300 \<Longrightarrow> isInside (int (i mod 20)) (int (i div 20))"
  using index_div_lt [of i] by (simp add: isInside_simps)

lemma scan_cell_of:
  assumes "isInside (fst p) (snd p)"
  shows "nat (snd p) * 20 + nat (fst p) < 300"
    and "scan_cells ! (nat (snd p) * 20 + nat (fst p)) = p"
    and "nat (fst p) < 20"
proof -
  from assms have b: "0 \<le> fst p" "fst p < 20" "0 \<le> snd p" "snd p < 15"
    by (simp_all add: isInside_simps)
  then have n: "nat (snd p) \<le> 14" "nat (fst p) \<le> 19" by simp_all
  then show l: "nat (snd p) * 20 + nat (fst p) < 300" by (rule index_lt)
  from b show x: "nat (fst p) < 20" by simp
  have "(nat (snd p) * 20 + nat (fst p)) mod 20 = nat (fst p)"
    "(nat (snd p) * 20 + nat (fst p)) div 20 = nat (snd p)"
    using x by simp_all
  then show "scan_cells ! (nat (snd p) * 20 + nat (fst p)) = p"
    using b by (simp add: scan_cells_nth [OF l] prod_eq_iff)
qed

lemma first_tile_scan:
  "first_tile ts t = Some p \<longleftrightarrow>
     isInside (fst p) (snd p) \<and> tile_at ts (fst p) (snd p) = t \<and>
     (\<forall>q. isInside (fst q) (snd q) \<and> scan_before q p \<longrightarrow> tile_at ts (fst q) (snd q) \<noteq> t)"
proof
  assume "first_tile ts t = Some p"
  then obtain i where i: "i < 300" "p = scan_cells ! i" "tile_at ts (fst p) (snd p) = t"
    and first: "\<forall>j<i. tile_at ts (fst (scan_cells ! j)) (snd (scan_cells ! j)) \<noteq> t"
    by (auto simp: first_tile_def find_Some_iff length_scan_cells)
  have p: "p = (int (i mod 20), int (i div 20))" using i by (simp add: scan_cells_nth)
  have ins: "isInside (fst p) (snd p)" using scan_cell_inside [OF i(1)] by (simp add: p)
  have "tile_at ts (fst q) (snd q) \<noteq> t" if q: "isInside (fst q) (snd q) \<and> scan_before q p" for q
  proof -
    define j where "j = nat (snd q) * 20 + nat (fst q)"
    from q have qi: "isInside (fst q) (snd q)" and sb: "scan_before q p" by simp_all
    note c = scan_cell_of [OF qi, folded j_def]
    from qi have b: "0 \<le> fst q" "0 \<le> snd q" by (simp_all add: isInside_simps)
    from sb have "nat (snd q) < i div 20 \<or> (nat (snd q) = i div 20 \<and> nat (fst q) < i mod 20)"
      using b by (auto simp: scan_before_def p)
    with c(3) have "j < i" unfolding j_def by (rule index_less)
    with first have "tile_at ts (fst (scan_cells ! j)) (snd (scan_cells ! j)) \<noteq> t" by simp
    then show ?thesis by (simp add: c(2))
  qed
  with ins i(3) show "isInside (fst p) (snd p) \<and> tile_at ts (fst p) (snd p) = t \<and>
     (\<forall>q. isInside (fst q) (snd q) \<and> scan_before q p \<longrightarrow> tile_at ts (fst q) (snd q) \<noteq> t)"
    by blast
next
  assume a: "isInside (fst p) (snd p) \<and> tile_at ts (fst p) (snd p) = t \<and>
     (\<forall>q. isInside (fst q) (snd q) \<and> scan_before q p \<longrightarrow> tile_at ts (fst q) (snd q) \<noteq> t)"
  define i where "i = nat (snd p) * 20 + nat (fst p)"
  from a have pin: "isInside (fst p) (snd p)" by simp
  note c = scan_cell_of [OF pin, folded i_def]
  from pin have b: "0 \<le> fst p" "0 \<le> snd p" by (simp_all add: isInside_simps)
  have im: "i mod 20 = nat (fst p)" "i div 20 = nat (snd p)"
    using c(3) by (simp_all add: i_def)
  have nf: "tile_at ts (fst (scan_cells ! j)) (snd (scan_cells ! j)) \<noteq> t" if "j < i" for j
  proof -
    from that c(1) have j300: "j < 300" by simp
    have qj: "scan_cells ! j = (int (j mod 20), int (j div 20))" using j300 by (rule scan_cells_nth)
    have "j div 20 < i div 20 \<or> (j div 20 = i div 20 \<and> j mod 20 < i mod 20)"
      using that by (rule index_less_conv)
    then have sb: "scan_before (scan_cells ! j) p"
      using b by (auto simp: scan_before_def qj im)
    have "isInside (fst (scan_cells ! j)) (snd (scan_cells ! j))"
      using scan_cell_inside [OF j300] by (simp add: qj)
    with sb a show ?thesis by blast
  qed
  have "\<exists>i<length scan_cells. tile_at ts (fst (scan_cells ! i)) (snd (scan_cells ! i)) = t \<and>
          p = scan_cells ! i \<and>
          (\<forall>j<i. \<not> tile_at ts (fst (scan_cells ! j)) (snd (scan_cells ! j)) = t)"
    apply (rule exI [of _ i])
    using a c nf by (simp add: length_scan_cells)
  then show "first_tile ts t = Some p"
    by (simp add: first_tile_def find_Some_iff)
qed

subsection \<open>Level load and the link table\<close>

lemma loadLevel_result:
  assumes "levels gp \<noteq> []"
  shows "\<exists>gl s. loadLevel i gp = Some gl \<and>
           currentLevel gl = Some (levels gp ! nat (clamp i 0 (int (length (levels gp)) - 1))) \<and>
           portalLinks gl
             = buildPortalLinks (Some (levels gp ! nat (clamp i 0 (int (length (levels gp)) - 1)))) \<and>
           snake gl = Some s \<and>
           buildInitialSegments
             (spawn (levels gp ! nat (clamp i 0 (int (length (levels gp)) - 1))))
             (snakeLength (levels gp ! nat (clamp i 0 (int (length (levels gp)) - 1))))
             (tiles (levels gp ! nat (clamp i 0 (int (length (levels gp)) - 1))))
             = Some (segments s)"
proof -
  let ?l = "levels gp ! nat (clamp i 0 (int (length (levels gp)) - 1))"
  from assms have n: "0 \<le> clamp i 0 (int (length (levels gp)) - 1)"
    by (cases "levels gp") (simp_all add: clamp_def)
  from buildInitialSegments_defined [of "spawn ?l" "snakeLength ?l" "tiles ?l"]
  obtain sg where sg: "buildInitialSegments (spawn ?l) (snakeLength ?l) (tiles ?l) = Some sg"
    by blast
  show ?thesis using n sg by (simp add: loadLevel_def Let_def new_Snake_def)
qed

text \<open>
  C7. On an accepted move onto a PortalA or PortalB tile the new segment list is a head
  followed by the old segments without the last, as the plain shift leaves them. The head
  is the linked cell when the link table has an entry for the candidate cell and the tile
  at the linked cell can be entered under the current star counter; otherwise the head is
  the candidate cell itself. The move leaves the link table as it is. In a game with at
  least one level \<open>loadLevel\<close> returns, with the level at the clamped index loaded, and the
  table it has built sends a cell \<open>p\<close> to \<open>q\<close> exactly when \<open>p\<close> and \<open>q\<close> are the first
  PortalA and the first PortalB cell of the level grid in scan order, in either order. The
  first cell of a kind is the cell of the board with that tile that no cell with that tile
  comes before, row by row from the top and from left to right within a row.
\<close>

theorem portal_warp:
  "(tryMove d t g = Some (True, g') \<and> (target_tile g d = PORTAL_A \<or> target_tile g d = PORTAL_B) \<longrightarrow>
      (case getPortalDestination g (move_target g d) of
         None \<Rightarrow> segs g' = move_target g d # butlast (segs g)
       | Some dest \<Rightarrow>
           if canEnterTileType g (getTile g (fst dest) (snd dest))
           then segs g' = dest # butlast (segs g)
           else segs g' = move_target g d # butlast (segs g)) \<and>
      portalLinks g' = portalLinks g) \<and>
   (levels gp \<noteq> [] \<longrightarrow>
      (\<exists>gl l. loadLevel i gp = Some gl \<and> currentLevel gl = Some l \<and>
        l = levels gp ! nat (clamp i 0 (int (length (levels gp)) - 1)) \<and>
        (\<forall>p q. getPortalDestination gl p = Some q \<longleftrightarrow>
            (first_tile (tiles l) PORTAL_A = Some p \<and> first_tile (tiles l) PORTAL_B = Some q) \<or>
            (first_tile (tiles l) PORTAL_B = Some p \<and> first_tile (tiles l) PORTAL_A = Some q)))) \<and>
   (first_tile ts kind = Some c \<longleftrightarrow>
      isInside (fst c) (snd c) \<and> tile_at ts (fst c) (snd c) = kind \<and>
      (\<forall>q. isInside (fst q) (snd q) \<and> scan_before q c \<longrightarrow> tile_at ts (fst q) (snd q) \<noteq> kind))"
proof -
  have P1: "tryMove d t g = Some (True, g') \<and> (target_tile g d = PORTAL_A \<or> target_tile g d = PORTAL_B) \<longrightarrow>
      (case getPortalDestination g (move_target g d) of
         None \<Rightarrow> segs g' = move_target g d # butlast (segs g)
       | Some dest \<Rightarrow>
           if canEnterTileType g (getTile g (fst dest) (snd dest))
           then segs g' = dest # butlast (segs g)
           else segs g' = move_target g d # butlast (segs g)) \<and>
      portalLinks g' = portalLinks g"
  proof (rule impI)
    assume a: "tryMove d t g = Some (True, g') \<and> (target_tile g d = PORTAL_A \<or> target_tile g d = PORTAL_B)"
    let ?c = "move_target g d" and ?ct = "target_tile g d"
    from a obtain s0 where
      sn: "snake g = Some s0"
      and sn': "snake g' = Some (s0\<lparr>segments := moved_segments g s0 ?c ?ct, direction := d\<rparr>)"
      and pl: "portalLinks g' = portalLinks g"
      by (blast elim: tryMove_result)
    have "segs g' = (case warp_target g ?c ?ct of None \<Rightarrow> ?c | Some dest \<Rightarrow> dest) # butlast (segs g)"
      using a sn sn' by (simp add: segs_def moved_segments_portal)
    then show "(case getPortalDestination g ?c of
         None \<Rightarrow> segs g' = ?c # butlast (segs g)
       | Some dest \<Rightarrow>
           if canEnterTileType g (getTile g (fst dest) (snd dest))
           then segs g' = dest # butlast (segs g)
           else segs g' = ?c # butlast (segs g)) \<and>
      portalLinks g' = portalLinks g"
      using a pl by (auto simp: warp_target_def split: option.splits)
  qed
  have P2: "levels gp \<noteq> [] \<longrightarrow>
      (\<exists>gl l. loadLevel i gp = Some gl \<and> currentLevel gl = Some l \<and>
        l = levels gp ! nat (clamp i 0 (int (length (levels gp)) - 1)) \<and>
        (\<forall>p q. getPortalDestination gl p = Some q \<longleftrightarrow>
            (first_tile (tiles l) PORTAL_A = Some p \<and> first_tile (tiles l) PORTAL_B = Some q) \<or>
            (first_tile (tiles l) PORTAL_B = Some p \<and> first_tile (tiles l) PORTAL_A = Some q)))"
  proof (rule impI)
    assume ne: "levels gp \<noteq> []"
    let ?l = "levels gp ! nat (clamp i 0 (int (length (levels gp)) - 1))"
    from loadLevel_result [OF ne, of i] obtain gl where
      l: "loadLevel i gp = Some gl" "currentLevel gl = Some ?l"
        "portalLinks gl = buildPortalLinks (Some ?l)"
      by blast
    have "\<forall>p q. getPortalDestination gl p = Some q \<longleftrightarrow>
            (first_tile (tiles ?l) PORTAL_A = Some p \<and> first_tile (tiles ?l) PORTAL_B = Some q) \<or>
            (first_tile (tiles ?l) PORTAL_B = Some p \<and> first_tile (tiles ?l) PORTAL_A = Some q)"
      using l(3) by (simp add: getPortalDestination_def links_lookup)
    with l(1,2) show "\<exists>gl l. loadLevel i gp = Some gl \<and> currentLevel gl = Some l \<and>
        l = levels gp ! nat (clamp i 0 (int (length (levels gp)) - 1)) \<and>
        (\<forall>p q. getPortalDestination gl p = Some q \<longleftrightarrow>
            (first_tile (tiles l) PORTAL_A = Some p \<and> first_tile (tiles l) PORTAL_B = Some q) \<or>
            (first_tile (tiles l) PORTAL_B = Some p \<and> first_tile (tiles l) PORTAL_A = Some q))"
      by blast
  qed
  show ?thesis by (intro conjI P1 P2 first_tile_scan)
qed

lemma demo_before_portal:
  "map_option (\<lambda>g. (segs g, move_target g ''right'', target_tile g ''right'',
                     getPortalDestination g (7, 1), canEnterTileType g (getTile g 10 13),
                     map_option fst (tryMove ''right'' 0 g)))
     (Option.bind (start_game demo_def) (play_moves (replicate 6 (0, ''right'', 0))))
   = Some ([(6, 1), (5, 1)], (7, 1), PORTAL_A, Some (10, 13), True, Some True)"
  by code_simp

lemma demo_first_portals:
  "first_tile demo_tiles PORTAL_A = Some (7, 1)" "first_tile demo_tiles PORTAL_B = Some (10, 13)"
  by code_simp+

theorem portal_warp_witness:
  "\<exists>g6 g' gl.
     Option.bind (start_game demo_def) (play_moves (replicate 6 (0, ''right'', 0))) = Some g6 \<and>
     segs g6 = [(6, 1), (5, 1)] \<and> target_tile g6 ''right'' = PORTAL_A \<and>
     getPortalDestination g6 (7, 1) = Some (10, 13) \<and>
     tryMove ''right'' 0 g6 = Some (True, g') \<and> segs g' = [(10, 13), (6, 1)] \<and>
     loadLevel 0 demo_title = Some gl \<and> currentLevel gl = Some demo_level \<and>
     getPortalDestination gl (7, 1) = Some (10, 13) \<and>
     getPortalDestination gl (10, 13) = Some (7, 1)"
proof -
  from demo_before_portal obtain g6 where
    g6: "Option.bind (start_game demo_def) (play_moves (replicate 6 (0, ''right'', 0))) = Some g6"
    and f: "segs g6 = [(6, 1), (5, 1)]" "move_target g6 ''right'' = (7, 1)"
      "target_tile g6 ''right'' = PORTAL_A" "getPortalDestination g6 (7, 1) = Some (10, 13)"
      "canEnterTileType g6 (getTile g6 10 13)"
      "map_option fst (tryMove ''right'' 0 g6) = Some True"
    by auto
  from f(6) obtain g' where m: "tryMove ''right'' 0 g6 = Some (True, g')" by auto
  have h1: "tryMove ''right'' 0 g6 = Some (True, g') \<and>
      (target_tile g6 ''right'' = PORTAL_A \<or> target_tile g6 ''right'' = PORTAL_B)"
    using m f(3) by simp
  note r1 = portal_warp [of "''right''" 0 g6 g' demo_title 0, THEN conjunct1, THEN mp, OF h1,
      THEN conjunct1]
  have s1: "segs g' = [(10, 13), (6, 1)]"
    using r1 f by simp
  have ne: "levels demo_title \<noteq> []" by (simp add: demo_title_def)
  from portal_warp [of "''right''" 0 g6 g' demo_title 0, THEN conjunct2, THEN conjunct1, THEN mp, OF ne]
  obtain gl l where
    gl: "loadLevel 0 demo_title = Some gl" "currentLevel gl = Some l"
      "l = levels demo_title ! nat (clamp 0 0 (int (length (levels demo_title)) - 1))"
    and lk: "\<forall>p q. getPortalDestination gl p = Some q \<longleftrightarrow>
            (first_tile (tiles l) PORTAL_A = Some p \<and> first_tile (tiles l) PORTAL_B = Some q) \<or>
            (first_tile (tiles l) PORTAL_B = Some p \<and> first_tile (tiles l) PORTAL_A = Some q)"
    by blast
  from gl(3) have l: "l = demo_level" by (simp add: demo_title_def clamp_def)
  then have tl: "tiles l = demo_tiles" by (simp add: demo_level_def)
  have d1: "getPortalDestination gl (7, 1) = Some (10, 13)"
    using lk demo_first_portals by (simp add: tl)
  have d2: "getPortalDestination gl (10, 13) = Some (7, 1)"
    using lk demo_first_portals by (simp add: tl)
  show ?thesis using g6 f(1,3,4) m s1 gl(1,2) l d1 d2 by blast
qed


subsection \<open>Overlapping segments at load and in play\<close>

lemma moved_overlap:
  assumes acc: "tryMove d t g = Some (True, g')" and dist: "distinct (segs g)"
  shows "tl (segs g') = butlast (segs g) @ replicate (item_growth (target_tile g d)) (last (segs g)) \<and>
         (distinct (segs g') \<longleftrightarrow>
            target_tile g d \<noteq> BIG_ITEM \<and> hd (segs g') \<notin> set (butlast (segs g)) \<and>
            (target_tile g d = ITEM \<longrightarrow> hd (segs g') \<noteq> last (segs g))) \<and>
         (state g' = PLAYING \<longrightarrow> (\<exists>g''. undo g' = Some (True, g'') \<and> segs g'' = segs g))"
proof -
  let ?c = "move_target g d" and ?ct = "target_tile g d"
  from acc obtain s0 where
    sn: "snake g = Some s0" and ne: "segments s0 \<noteq> []"
    and sn': "snake g' = Some (s0\<lparr>segments := moved_segments g s0 ?c ?ct, direction := d\<rparr>)"
    by (rule tryMove_result)
  let ?x = "case warp_target g ?c ?ct of None \<Rightarrow> ?c | Some dest \<Rightarrow> dest"
  have sg: "segs g = segments s0" using sn by (simp add: segs_def)
  have sg': "segs g' = ?x # butlast (segs g) @ replicate (item_growth ?ct) (last (segs g))"
    using sn' sg by (simp add: segs_def moved_segments_def)
  have d0: "distinct (segs g)" "segs g \<noteq> []" using dist ne sg by simp_all
  have "distinct (segs g') \<longleftrightarrow>
          item_growth ?ct \<le> 1 \<and> ?x \<notin> set (butlast (segs g)) \<and>
          (item_growth ?ct = 1 \<longrightarrow> ?x \<noteq> last (segs g))"
    unfolding sg' using d0 by (rule distinct_moved)
  then have A: "distinct (segs g') \<longleftrightarrow>
            ?ct \<noteq> BIG_ITEM \<and> hd (segs g') \<notin> set (butlast (segs g)) \<and>
            (?ct = ITEM \<longrightarrow> hd (segs g') \<noteq> last (segs g))"
    by (simp add: sg' item_growth_def)
  have B: "state g' = PLAYING \<longrightarrow> (\<exists>g''. undo g' = Some (True, g'') \<and> segs g'' = segs g)"
  proof (rule impI)
    assume "state g' = PLAYING"
    from undo_after_move [OF acc this] obtain g'' where
      "undo g' = Some (True, g'')" "snake g'' = snake g" by blast
    then show "\<exists>g''. undo g' = Some (True, g'') \<and> segs g'' = segs g"
      by (auto simp: segs_def)
  qed
  have C: "tl (segs g') = butlast (segs g) @ replicate (item_growth ?ct) (last (segs g))"
    by (simp add: sg')
  show ?thesis by (intro conjI A B C)
qed

lemma loaded_segments:
  assumes ne: "levels gp \<noteq> []"
  shows "\<exists>gl l. loadLevel i gp = Some gl \<and> currentLevel gl = Some l \<and>
        l = levels gp ! nat (clamp i 0 (int (length (levels gp)) - 1)) \<and>
        length (segs gl) = nat (max 1 (snakeLength l)) \<and> hd (segs gl) = spawn l \<and>
        (distinct (segs gl) \<longleftrightarrow>
           (\<exists>qs. int (length qs) = max 1 (snakeLength l) - 1 \<and>
                 walk_from (tiles l) (spawn l) qs \<and> distinct (spawn l # qs))) \<and>
        (distinct (segs gl) \<longrightarrow> walk_from (tiles l) (spawn l) (tl (segs gl))) \<and>
        (\<not> distinct (segs gl) \<longrightarrow> segs gl = replicate (nat (snakeLength l)) (spawn l))"
proof -
  define l where "l = levels gp ! nat (clamp i 0 (int (length (levels gp)) - 1))"
  define X where "X \<longleftrightarrow> (\<exists>qs. int (length qs) = max 1 (snakeLength l) - 1 \<and>
                 walk_from (tiles l) (spawn l) qs \<and> distinct (spawn l # qs))"
  from loadLevel_result [OF ne, of i] obtain gl s where
    l: "loadLevel i gp = Some gl" "currentLevel gl = Some l" "snake gl = Some s"
      "buildInitialSegments (spawn l) (snakeLength l) (tiles l) = Some (segments s)"
    unfolding l_def by blast
  have sg: "segs gl = segments s" using l(3) by (simp add: segs_def)
  from buildInitialSegments_cases [of "spawn l" "snakeLength l" "tiles l"] l(4)
  have c: "length (segs gl) = nat (max 1 (snakeLength l))" "hd (segs gl) = spawn l"
    "if X then distinct (segs gl) \<and> walk_from (tiles l) (spawn l) (tl (segs gl))
     else segs gl = replicate (nat (max 1 (snakeLength l))) (spawn l)"
    unfolding X_def by (simp_all add: sg)
  have big: "2 \<le> snakeLength l" if "\<not> X"
  proof (rule ccontr)
    assume "\<not> 2 \<le> snakeLength l"
    then have "int (length ([] :: point list)) = max 1 (snakeLength l) - 1 \<and>
               walk_from (tiles l) (spawn l) [] \<and> distinct (spawn l # [])"
      by simp
    then have x: X unfolding X_def by (rule exI)
    from that x show False by (rule notE)
  qed
  have nd: "\<not> distinct (segs gl) \<and> segs gl = replicate (nat (snakeLength l)) (spawn l)" if "\<not> X"
  proof -
    from big [OF that] have m: "max 1 (snakeLength l) = snakeLength l" by simp
    from c(3) that have r: "segs gl = replicate (nat (snakeLength l)) (spawn l)"
      by (simp add: m)
    from big [OF that] have "2 \<le> nat (snakeLength l)" by simp
    then obtain k where "nat (snakeLength l) = Suc (Suc k)"
      by (metis Suc_le_D numeral_2_eq_2 Suc_le_mono)
    then have "\<not> distinct (replicate (nat (snakeLength l)) (spawn l))" by simp
    with r show ?thesis by simp
  qed
  have D: "distinct (segs gl) \<longleftrightarrow> X"
  proof (cases X)
    case True
    with c(3) show ?thesis by simp
  next
    case False
    from nd [OF False] False show ?thesis by blast
  qed
  have W: "distinct (segs gl) \<longrightarrow> walk_from (tiles l) (spawn l) (tl (segs gl))"
    using c(3) D by (cases X) simp_all
  have R: "\<not> distinct (segs gl) \<longrightarrow> segs gl = replicate (nat (snakeLength l)) (spawn l)"
    using nd D by blast
  have "loadLevel i gp = Some gl \<and> currentLevel gl = Some l \<and>
        l = levels gp ! nat (clamp i 0 (int (length (levels gp)) - 1)) \<and>
        length (segs gl) = nat (max 1 (snakeLength l)) \<and> hd (segs gl) = spawn l \<and>
        (distinct (segs gl) \<longleftrightarrow>
           (\<exists>qs. int (length qs) = max 1 (snakeLength l) - 1 \<and>
                 walk_from (tiles l) (spawn l) qs \<and> distinct (spawn l # qs))) \<and>
        (distinct (segs gl) \<longrightarrow> walk_from (tiles l) (spawn l) (tl (segs gl))) \<and>
        (\<not> distinct (segs gl) \<longrightarrow> segs gl = replicate (nat (snakeLength l)) (spawn l))"
    by (intro conjI l(1) l(2) l_def c(1) c(2) D [unfolded X_def] W R)
  then show ?thesis by (intro exI)
qed


text \<open>
  C3, as the code has it. At level load the snake has \<open>snakeLength\<close> segments (at least
  one), the head on the spawn. They are pairwise distinct exactly when a self-avoiding walk
  of that many cells starts at the spawn and runs through walkable cells; the snake then
  lies on such a walk. Otherwise every segment lies on the spawn cell, however large the
  walkable area around it is. In play, \<open>tryMove\<close> looks at the destination tile only,
  never at the snake's own cells. After an accepted move the segments behind the head are
  the old segments without the last, followed by one copy of the old tail cell per grown
  segment (two for a BigItem). So, from pairwise distinct segments, the segments after the
  move are pairwise distinct exactly when the destination is not a BigItem tile, the new
  head is on none of the old segments but the last, and, when an Item was taken, not on the
  old last segment either. An undo of the move brings back the exact segment list of
  before.
\<close>

theorem overlap_after_move:
  "(levels gp \<noteq> [] \<longrightarrow>
      (\<exists>gl l. loadLevel i gp = Some gl \<and> currentLevel gl = Some l \<and>
        l = levels gp ! nat (clamp i 0 (int (length (levels gp)) - 1)) \<and>
        length (segs gl) = nat (max 1 (snakeLength l)) \<and> hd (segs gl) = spawn l \<and>
        (distinct (segs gl) \<longleftrightarrow>
           (\<exists>qs. int (length qs) = max 1 (snakeLength l) - 1 \<and>
                 walk_from (tiles l) (spawn l) qs \<and> distinct (spawn l # qs))) \<and>
        (distinct (segs gl) \<longrightarrow> walk_from (tiles l) (spawn l) (tl (segs gl))) \<and>
        (\<not> distinct (segs gl) \<longrightarrow> segs gl = replicate (nat (snakeLength l)) (spawn l)))) \<and>
   (tryMove d t g = Some (True, g') \<and> distinct (segs g) \<longrightarrow>
      tl (segs g') = butlast (segs g) @ replicate (item_growth (target_tile g d)) (last (segs g)) \<and>
      (distinct (segs g') \<longleftrightarrow>
         target_tile g d \<noteq> BIG_ITEM \<and> hd (segs g') \<notin> set (butlast (segs g)) \<and>
         (target_tile g d = ITEM \<longrightarrow> hd (segs g') \<noteq> last (segs g))) \<and>
      (state g' = PLAYING \<longrightarrow> (\<exists>g''. undo g' = Some (True, g'') \<and> segs g'' = segs g)))"
proof -
  have P1: "levels gp \<noteq> [] \<longrightarrow>
      (\<exists>gl l. loadLevel i gp = Some gl \<and> currentLevel gl = Some l \<and>
        l = levels gp ! nat (clamp i 0 (int (length (levels gp)) - 1)) \<and>
        length (segs gl) = nat (max 1 (snakeLength l)) \<and> hd (segs gl) = spawn l \<and>
        (distinct (segs gl) \<longleftrightarrow>
           (\<exists>qs. int (length qs) = max 1 (snakeLength l) - 1 \<and>
                 walk_from (tiles l) (spawn l) qs \<and> distinct (spawn l # qs))) \<and>
        (distinct (segs gl) \<longrightarrow> walk_from (tiles l) (spawn l) (tl (segs gl))) \<and>
        (\<not> distinct (segs gl) \<longrightarrow> segs gl = replicate (nat (snakeLength l)) (spawn l)))"
    using loaded_segments [of gp i] by (rule impI)
  have P2: "tryMove d t g = Some (True, g') \<and> distinct (segs g) \<longrightarrow>
      tl (segs g') = butlast (segs g) @ replicate (item_growth (target_tile g d)) (last (segs g)) \<and>
      (distinct (segs g') \<longleftrightarrow>
         target_tile g d \<noteq> BIG_ITEM \<and> hd (segs g') \<notin> set (butlast (segs g)) \<and>
         (target_tile g d = ITEM \<longrightarrow> hd (segs g') \<noteq> last (segs g))) \<and>
      (state g' = PLAYING \<longrightarrow> (\<exists>g''. undo g' = Some (True, g'') \<and> segs g'' = segs g))"
  proof (rule impI)
    assume a: "tryMove d t g = Some (True, g') \<and> distinct (segs g)"
    from moved_overlap [OF a [THEN conjunct1] a [THEN conjunct2]]
    show "tl (segs g') = butlast (segs g) @ replicate (item_growth (target_tile g d)) (last (segs g)) \<and>
      (distinct (segs g') \<longleftrightarrow>
         target_tile g d \<noteq> BIG_ITEM \<and> hd (segs g') \<notin> set (butlast (segs g)) \<and>
         (target_tile g d = ITEM \<longrightarrow> hd (segs g') \<noteq> last (segs g))) \<and>
      (state g' = PLAYING \<longrightarrow> (\<exists>g''. undo g' = Some (True, g'') \<and> segs g'' = segs g))" .
  qed
  show ?thesis by (intro conjI P1 P2)
qed

lemma demo3_parse:
  "parseMap (Some demo3_def) = Inr (demo_level\<lparr>level_id := 4, snakeLength := 3\<rparr>)"
  by code_simp

lemma demo3_walk:
  "int (length [(1::int, 1::int), (2, 1)]) = max 1 3 - 1 \<and>
   walk_from demo_tiles (0, 1) [(1, 1), (2, 1)] \<and> distinct [(0::int, 1::int), (1, 1), (2, 1)]"
  by code_simp

theorem overlap_after_move_witness:
  "(\<exists>gl. loadLevel 0 (demo_title\<lparr>levels := [demo_level\<lparr>level_id := 4, snakeLength := 3\<rparr>]\<rparr>) = Some gl \<and>
         length (segs gl) = 3 \<and> hd (segs gl) = (0, 1) \<and> distinct (segs gl) \<and>
         walk_from demo_tiles (0, 1) (tl (segs gl))) \<and>
   (\<exists>g'. tryMove ''right'' 0 (demo_at [(2, 1), (1, 1)]) = Some (True, g') \<and>
         distinct (segs (demo_at [(2, 1), (1, 1)])) \<and>
         tl (segs g') = [(2, 1), (1, 1)] \<and>
         (distinct (segs g') \<longleftrightarrow> hd (segs g') \<noteq> (2, 1) \<and> hd (segs g') \<noteq> (1, 1)))"
proof -
  let ?g = "demo_at [(2, 1), (1, 1)]"
  let ?gp = "demo_title\<lparr>levels := [demo_level\<lparr>level_id := 4, snakeLength := 3\<rparr>]\<rparr>"
  obtain g1 where m1: "tryMove ''right'' 0 ?g = Some (True, g1)"
    using demo_accepts [of "''right''" "(1, 0)" "(2, 1)" 0 "[(1, 1)]"]
    by (auto simp: DIRECTIONS_simps isInside_simps demo_cells)
  have t1: "move_target ?g ''right'' = (3, 1)"
    by (simp add: demo_target [of _ "(1, 0)"] DIRECTIONS_simps)
  have tt1: "target_tile ?g ''right'' = ITEM"
    by (simp add: target_tile_def t1 getTile_demo isInside_simps demo_cells)
  have sg: "segs ?g = [(2, 1), (1, 1)]" by (simp add: segs_def demo_at_basics)
  have d: "distinct (segs ?g)" by (simp add: sg)
  note inst = overlap_after_move [of ?gp 0 "''right''" 0 ?g g1]
  note r = inst [THEN conjunct2, THEN mp, OF conjI [OF m1 d]]
  have a1: "tl (segs g1) = [(2, 1), (1, 1)]"
    using r [THEN conjunct1] by (simp add: sg tt1 item_growth_def)
  have a2: "distinct (segs g1) \<longleftrightarrow> hd (segs g1) \<noteq> (2, 1) \<and> hd (segs g1) \<noteq> (1, 1)"
    using r [THEN conjunct2, THEN conjunct1] by (simp add: sg tt1)
  have ne: "levels ?gp \<noteq> []" by simp
  from inst [THEN conjunct1, THEN mp, OF ne] obtain gl l where
    gl: "loadLevel 0 ?gp = Some gl"
    and l: "l = levels ?gp ! nat (clamp 0 0 (int (length (levels ?gp)) - 1))"
    and len: "length (segs gl) = nat (max 1 (snakeLength l))" and hd: "hd (segs gl) = spawn l"
    and D: "distinct (segs gl) \<longleftrightarrow>
           (\<exists>qs. int (length qs) = max 1 (snakeLength l) - 1 \<and>
                 walk_from (tiles l) (spawn l) qs \<and> distinct (spawn l # qs))"
    and W: "distinct (segs gl) \<longrightarrow> walk_from (tiles l) (spawn l) (tl (segs gl))"
    by blast
  from l have l': "l = demo_level\<lparr>level_id := 4, snakeLength := 3\<rparr>" by (simp add: clamp_def)
  then have f: "snakeLength l = 3" "spawn l = (0, 1)" "tiles l = demo_tiles"
    by (simp_all add: demo_level_def)
  have "\<exists>qs. int (length qs) = max 1 (snakeLength l) - 1 \<and>
                 walk_from (tiles l) (spawn l) qs \<and> distinct (spawn l # qs)"
    unfolding f using demo3_walk by (rule exI)
  with D have dist: "distinct (segs gl)" by simp
  with W have walk: "walk_from demo_tiles (0, 1) (tl (segs gl))" by (simp add: f)
  have b: "\<exists>gl. loadLevel 0 ?gp = Some gl \<and> length (segs gl) = 3 \<and> hd (segs gl) = (0, 1) \<and>
      distinct (segs gl) \<and> walk_from demo_tiles (0, 1) (tl (segs gl))"
    using gl len hd dist walk by (auto simp: f)
  have c: "\<exists>g'. tryMove ''right'' 0 ?g = Some (True, g') \<and> distinct (segs ?g) \<and>
         tl (segs g') = [(2, 1), (1, 1)] \<and>
         (distinct (segs g') \<longleftrightarrow> hd (segs g') \<noteq> (2, 1) \<and> hd (segs g') \<noteq> (1, 1))"
    using m1 d a1 a2 by blast
  show ?thesis by (intro conjI b c)
qed

theorem no_overlap_counterexample:
  "valid_map plus_rows \<and>
   (case parseMap (Some plus_def) of
      Inl e \<Rightarrow> False
    | Inr lv \<Rightarrow> snakeLength lv = 3 \<and>
        filter (\<lambda>p. isWalkable (tiles lv) (fst p) (snd p)) scan_cells
          = [(2, 1), (1, 2), (2, 2), (3, 2), (2, 3)]) \<and>
   map_option segs (start_game plus_def) = Some [(2, 2), (2, 2), (2, 2)] \<and>
   \<not> distinct [(2::int, 2::int), (2, 2), (2, 2)] \<and>
   map_option segs (loadLevel 0 demo_title) = Some [(0, 1)] \<and>
   Option.bind (loadLevel 0 demo_title)
     (\<lambda>gl. map_option (\<lambda>r. (fst r, state (snd r), segs (snd r)))
             (tryMove ''down'' 0 (snd (setState PLAYING gl))))
     = Some (True, PLAYING, [(0, 2), (0, 1), (0, 1)]) \<and>
   \<not> distinct [(0::int, 2::int), (0, 1), (0, 1)]"
  by code_simp


subsection \<open>Portal placement in the generator\<close>
































end
